theory Spec2Isabelle
  imports Complex_Main
begin

section \<open>Cache and aggregation engine of the context service\<close>

text \<open>
  A shallow embedding of \<^verbatim>\<open>src/core/cache_manager.py\<close> (the bounded recency cache
  \<^verbatim>\<open>LRUCache\<close> and the tiered \<^verbatim>\<open>CacheManager\<close>) and of
  \<^verbatim>\<open>src/core/context_builder.py\<close> (the dimension aggregator \<^verbatim>\<open>ContextBuilder\<close>),
  with the parts of \<^verbatim>\<open>src/models/dimensions.py\<close> they read.

  Conventions.
  \<^item> Python floats are modelled as \<^typ>\<open>real\<close>; Python ints as \<^typ>\<open>int\<close> or, for a
    \<^verbatim>\<open>len\<close>, \<^typ>\<open>nat\<close>.
  \<^item> A \<^verbatim>\<open>datetime\<close> is a number of microseconds; the clock is an explicit argument
    of every operation that calls \<^verbatim>\<open>datetime.now()\<close>, read once per call.
  \<^item> A \<^verbatim>\<open>raise\<close> is the \<open>Inl\<close> branch of a sum with the type \<open>error\<close>.
  \<^item> A mutated object is passed in and returned.
  \<^item> \<^verbatim>\<open>hashlib.md5(s.encode()).hexdigest()\<close> belongs to the standard library, not to
    the repository: it is the parameter \<open>md5\<close> of every function that builds a key.
  \<^item> The five analyzers are collaborators of the aggregator: of a call of
    \<^verbatim>\<open>analyze\<close> the model keeps the outcome (a returned context, a raised
    \<^verbatim>\<open>Exception\<close>, or a raised exception outside \<^verbatim>\<open>Exception\<close>), and
    \<^verbatim>\<open>build_context\<close> returns, with its result, the list of the calls it made.
\<close>

subsection \<open>Errors\<close>

text \<open>The text of an error message is a list of parts: literal text, and the \<^verbatim>\<open>repr\<close> of
  a set of strings, whose order of elements is that of Python's set and is left open.\<close>

datatype message_part = Text string | SetRepr "string set"

datatype error =
    ValueError "message_part list"
  | ValidationError
  | AttributeError
  | AnalyzerError string

subsection \<open>The dimension models (\<^verbatim>\<open>src/models/dimensions.py\<close>)\<close>

text \<open>
  The aggregator reads of an item list only its length, so the items (parties, citations,
  deadlines, ...) are kept as opaque strings. Every context carries \<^verbatim>\<open>case_id\<close> and
  \<^verbatim>\<open>case_name\<close> (here \<open>model_case_id\<close> and \<open>model_case_name\<close>, the plain names being
  the arguments of the operations below); the fields the aggregator never reads are left
  out.
\<close>

type_synonym datetime = int
type_synonym item = string

record dimension_model =
  model_case_id :: string
  model_case_name :: string

record who_context = dimension_model +
  parties :: "item list"
  judges :: "item list"
  attorneys :: "item list"
  witnesses :: "item list"

record what_context = dimension_model +
  causes_of_action :: "item list"
  legal_issues :: "string list"
  statutes :: "item list"
  case_citations :: "item list"

record where_context = dimension_model +
  primary_jurisdiction :: string
  court :: string
  venue :: string

text \<open>\<^verbatim>\<open>WhenContext.filing_date\<close> is declared \<^verbatim>\<open>filing_date: datetime\<close>: a required
  field, not an optional one.\<close>

record when_context = dimension_model +
  filing_date :: datetime
  timeline :: "item list"
  upcoming_deadlines :: "item list"
  past_deadlines :: "item list"

record why_context = dimension_model +
  legal_theories :: "item list"
  supporting_precedents :: "item list"
  opposing_precedents :: "item list"

text \<open>What the fan-out can store as the result of a dimension: a context of one of the five
  classes, or an exception object (it has none of the attributes of a context).\<close>

datatype dim_context =
    WhoC who_context
  | WhatC what_context
  | WhereC where_context
  | WhenC when_context
  | WhyC why_context
  | ExceptionObject string

text \<open>Python truthiness. A \<^verbatim>\<open>str\<close> is true when it is not empty; a \<^verbatim>\<open>datetime\<close>
  defines neither \<^verbatim>\<open>__bool__\<close> nor \<^verbatim>\<open>__len__\<close>, so it is always true.\<close>

definition bool_str :: "string \<Rightarrow> bool" where
  "bool_str s = (s \<noteq> [])"

definition bool_datetime :: "datetime \<Rightarrow> bool" where
  "bool_datetime d = True"

subsection \<open>Scoring (\<^verbatim>\<open>ContextBuilder._score_dimension\<close>, \<^verbatim>\<open>_calculate_context_score\<close>)\<close>

definition COMPLETENESS_THRESHOLD :: real where
  "COMPLETENESS_THRESHOLD = 85 / 100"

text \<open>The branch is chosen by the dimension name, the attributes are read from the
  context whatever its class: a context of another class has no such attribute, which is
  Python's \<^verbatim>\<open>AttributeError\<close>.\<close>

definition score_dimension :: "string \<Rightarrow> dim_context option \<Rightarrow> error + real" where
  "score_dimension dimension_name context =
    (case context of
       None \<Rightarrow> Inr 0
     | Some ctx \<Rightarrow>
        if dimension_name = ''WHO'' then
          (case ctx of
             WhoC c \<Rightarrow>
               let data_points = length (parties c) + length (judges c)
                                + length (attorneys c) + length (witnesses c)
               in Inr (min 1 (real data_points / 10))
           | _ \<Rightarrow> Inl AttributeError)
        else if dimension_name = ''WHAT'' then
          (case ctx of
             WhatC c \<Rightarrow>
               let data_points = length (causes_of_action c) + length (legal_issues c)
                                + length (statutes c) + length (case_citations c)
               in Inr (min 1 (real data_points / 10))
           | _ \<Rightarrow> Inl AttributeError)
        else if dimension_name = ''WHERE'' then
          (case ctx of
             WhereC c \<Rightarrow>
               let has_jurisdiction = bool_str (primary_jurisdiction c);
                   has_court = bool_str (court c);
                   has_venue = bool_str (venue c)
               in Inr ((of_bool has_jurisdiction + of_bool has_court + of_bool has_venue) / 3)
           | _ \<Rightarrow> Inl AttributeError)
        else if dimension_name = ''WHEN'' then
          (case ctx of
             WhenC c \<Rightarrow>
               let data_points = length (timeline c) + length (upcoming_deadlines c)
                                + length (past_deadlines c);
                   has_filing_date = bool_datetime (filing_date c);
                   time_score = min 1 (real data_points / 10)
               in Inr (time_score + (if has_filing_date then 3 / 10 else 0))
           | _ \<Rightarrow> Inl AttributeError)
        else if dimension_name = ''WHY'' then
          (case ctx of
             WhyC c \<Rightarrow>
               let data_points = length (legal_theories c) + length (supporting_precedents c)
                                + length (opposing_precedents c)
               in Inr (min 1 (real data_points / 10))
           | _ \<Rightarrow> Inl AttributeError)
        else Inr (1 / 2))"

text \<open>\<^verbatim>\<open>_count_data_points\<close>.\<close>

definition count_data_points :: "string \<Rightarrow> dim_context option \<Rightarrow> error + int" where
  "count_data_points dimension_name context =
    (case context of
       None \<Rightarrow> Inr 0
     | Some ctx \<Rightarrow>
        if dimension_name = ''WHO'' then
          (case ctx of
             WhoC c \<Rightarrow> Inr (int (length (parties c) + length (judges c)
                                + length (attorneys c) + length (witnesses c)))
           | _ \<Rightarrow> Inl AttributeError)
        else if dimension_name = ''WHAT'' then
          (case ctx of
             WhatC c \<Rightarrow> Inr (int (length (causes_of_action c) + length (legal_issues c)
                                + length (statutes c) + length (case_citations c)))
           | _ \<Rightarrow> Inl AttributeError)
        else if dimension_name = ''WHERE'' then
          (case ctx of
             WhereC c \<Rightarrow>
               Inr (if bool_str (primary_jurisdiction c) \<and> bool_str (court c) \<and> bool_str (venue c)
                    then 3 else 0)
           | _ \<Rightarrow> Inl AttributeError)
        else if dimension_name = ''WHEN'' then
          (case ctx of
             WhenC c \<Rightarrow> Inr (int (length (timeline c) + length (upcoming_deadlines c)
                                + length (past_deadlines c)))
           | _ \<Rightarrow> Inl AttributeError)
        else if dimension_name = ''WHY'' then
          (case ctx of
             WhyC c \<Rightarrow> Inr (int (length (legal_theories c) + length (supporting_precedents c)
                                + length (opposing_precedents c)))
           | _ \<Rightarrow> Inl AttributeError)
        else Inr 0)"

text \<open>
  A \<^verbatim>\<open>Dict[str, Any]\<close> of dimension results is an association list in insertion order;
  the value \<open>None\<close> is a failed dimension.

  The loop of \<^verbatim>\<open>_calculate_context_score\<close> appends one score per item to
  \<^verbatim>\<open>dimension_scores\<close>; an exception of \<^verbatim>\<open>_score_dimension\<close> leaves the loop.
\<close>

type_synonym dimension_results = "(string \<times> dim_context option) list"

fun dimension_scores_loop :: "real list \<Rightarrow> dimension_results \<Rightarrow> error + real list" where
  "dimension_scores_loop dimension_scores [] = Inr dimension_scores"
| "dimension_scores_loop dimension_scores ((dimension_name, context) # rest) =
    (case context of
       None \<Rightarrow> dimension_scores_loop (dimension_scores @ [0]) rest
     | Some ctx \<Rightarrow>
        (case score_dimension dimension_name (Some ctx) of
           Inl e \<Rightarrow> Inl e
         | Inr score \<Rightarrow> dimension_scores_loop (dimension_scores @ [score]) rest))"

definition calculate_context_score :: "dimension_results \<Rightarrow> error + real" where
  "calculate_context_score dimension_results =
    (let total_dimensions = length dimension_results in
     if total_dimensions = 0 then Inr 0
     else
       let successful_dimensions =
             length (filter (\<lambda>result. result \<noteq> None) (map snd dimension_results))
       in case dimension_scores_loop [] dimension_results of
            Inl e \<Rightarrow> Inl e
          | Inr dimension_scores \<Rightarrow>
              let avg_score = sum_list dimension_scores / real (length dimension_scores);
                  completeness_ratio = real successful_dimensions / real total_dimensions;
                  final_score = avg_score * completeness_ratio
              in Inr (min 1 (max 0 final_score)))"

subsection \<open>\<^verbatim>\<open>collections.OrderedDict\<close>\<close>

text \<open>
  An \<^verbatim>\<open>OrderedDict\<close> is the list of its items, oldest first. Lookup is \<^const>\<open>map_of\<close>.
  \<^verbatim>\<open>d[k] = v\<close> keeps the place of a key that is present and appends a new one;
  \<^verbatim>\<open>del d[k]\<close> and \<^verbatim>\<open>d.move_to_end(k)\<close> raise \<^verbatim>\<open>KeyError\<close> for an absent key, and
  the source calls both only for a key it has just found or stored.
\<close>

type_synonym ('k, 'v) ordered_dict = "('k \<times> 'v) list"

definition od_keys :: "('k, 'v) ordered_dict \<Rightarrow> 'k list" where
  "od_keys d = map fst d"

definition od_contains :: "'k \<Rightarrow> ('k, 'v) ordered_dict \<Rightarrow> bool" where
  "od_contains k d = (k \<in> set (od_keys d))"

fun od_assign :: "'k \<Rightarrow> 'v \<Rightarrow> ('k, 'v) ordered_dict \<Rightarrow> ('k, 'v) ordered_dict" where
  "od_assign k v [] = [(k, v)]"
| "od_assign k v (p # ps) = (if fst p = k then (k, v) # ps else p # od_assign k v ps)"

definition od_delete :: "'k \<Rightarrow> ('k, 'v) ordered_dict \<Rightarrow> ('k, 'v) ordered_dict" where
  "od_delete k d = filter (\<lambda>p. fst p \<noteq> k) d"

definition od_move_to_end :: "'k \<Rightarrow> ('k, 'v) ordered_dict \<Rightarrow> ('k, 'v) ordered_dict" where
  "od_move_to_end k d = filter (\<lambda>p. fst p \<noteq> k) d @ filter (\<lambda>p. fst p = k) d"

text \<open>\<^verbatim>\<open>next(iter(d))\<close>; \<open>None\<close> stands for \<^verbatim>\<open>StopIteration\<close> on an empty dictionary.\<close>

definition od_first_key :: "('k, 'v) ordered_dict \<Rightarrow> 'k option" where
  "od_first_key d = (case d of [] \<Rightarrow> None | p # _ \<Rightarrow> Some (fst p))"

subsection \<open>The cache entry and the in-memory tier (\<^verbatim>\<open>CacheEntry\<close>, \<^verbatim>\<open>LRUCache\<close>)\<close>

record 'v cache_entry =
  key :: string
  cached_value :: 'v
  created_at :: datetime
  expires_at :: datetime
  hit_count :: int
  last_accessed :: "datetime option"
  case_status :: string

definition is_expired :: "'v cache_entry \<Rightarrow> datetime \<Rightarrow> bool" where
  "is_expired entry now = (now \<ge> expires_at entry)"

definition increment_hits :: "'v cache_entry \<Rightarrow> datetime \<Rightarrow> 'v cache_entry" where
  "increment_hits entry now = entry\<lparr>hit_count := hit_count entry + 1, last_accessed := Some now\<rparr>"

text \<open>\<^verbatim>\<open>timedelta(seconds=ttl)\<close> in microseconds.\<close>

definition timedelta_seconds :: "int \<Rightarrow> int" where
  "timedelta_seconds ttl = ttl * 1000000"

record 'v lru_cache =
  max_size :: int
  default_ttl :: int
  cache :: "(string, 'v cache_entry) ordered_dict"

definition new_lru_cache :: "int \<Rightarrow> int \<Rightarrow> 'v lru_cache" where
  "new_lru_cache capacity ttl = \<lparr>max_size = capacity, default_ttl = ttl, cache = []\<rparr>"

text \<open>\<^verbatim>\<open>LRUCache.get\<close>. The entry is an object of the dictionary: it is moved to the end and
  then updated in place.\<close>

definition lru_get :: "string \<Rightarrow> datetime \<Rightarrow> 'v lru_cache \<Rightarrow> 'v option \<times> 'v lru_cache" where
  "lru_get k now c =
    (case map_of (cache c) k of
       None \<Rightarrow> (None, c)
     | Some entry \<Rightarrow>
         if is_expired entry now then (None, c\<lparr>cache := od_delete k (cache c)\<rparr>)
         else
           let entry' = increment_hits entry now
           in (Some (cached_value entry'),
               c\<lparr>cache := od_assign k entry' (od_move_to_end k (cache c))\<rparr>))"

text \<open>\<^verbatim>\<open>LRUCache.set\<close>. \<^verbatim>\<open>ttl or self.default_ttl\<close> takes the default for \<^verbatim>\<open>None\<close> and
  for \<open>0\<close>.\<close>

definition lru_set ::
  "string \<Rightarrow> 'v \<Rightarrow> int option \<Rightarrow> string \<Rightarrow> datetime \<Rightarrow> 'v lru_cache \<Rightarrow> 'v lru_cache" where
  "lru_set k v ttl status now c =
    (let ttl' = (case ttl of None \<Rightarrow> default_ttl c
                 | Some t \<Rightarrow> if t = 0 then default_ttl c else t);
         entry = \<lparr>key = k, cached_value = v, created_at = now,
                  expires_at = now + timedelta_seconds ttl', hit_count = 0,
                  last_accessed = None, case_status = status\<rparr>;
         d = od_move_to_end k (od_assign k entry (cache c))
     in if int (length d) > max_size c
        then (case od_first_key d of
                None \<Rightarrow> c\<lparr>cache := d\<rparr>
              | Some oldest_key \<Rightarrow> c\<lparr>cache := od_delete oldest_key d\<rparr>)
        else c\<lparr>cache := d\<rparr>)"

definition lru_delete :: "string \<Rightarrow> 'v lru_cache \<Rightarrow> bool \<times> 'v lru_cache" where
  "lru_delete k c =
    (if od_contains k (cache c) then (True, c\<lparr>cache := od_delete k (cache c)\<rparr>)
     else (False, c))"

definition lru_clear :: "'v lru_cache \<Rightarrow> int \<times> 'v lru_cache" where
  "lru_clear c = (int (length (cache c)), c\<lparr>cache := []\<rparr>)"

record lru_stats =
  stats_size :: int
  stats_max_size :: int
  utilization :: real
  total_hits :: int
  expired_entries :: int
  default_ttl_seconds :: int

definition lru_get_stats :: "'v lru_cache \<Rightarrow> datetime \<Rightarrow> lru_stats" where
  "lru_get_stats c now =
    \<lparr>stats_size = int (length (cache c)),
     stats_max_size = max_size c,
     utilization = (if max_size c > 0 then real (length (cache c)) / real_of_int (max_size c)
                    else 0),
     total_hits = sum_list (map (\<lambda>p. hit_count (snd p)) (cache c)),
     expired_entries = int (length (filter (\<lambda>p. is_expired (snd p) now) (cache c))),
     default_ttl_seconds = default_ttl c\<rparr>"

text \<open>The keys of the tier in recency order, the least recently used first, and a run of
  \<^verbatim>\<open>set\<close> calls with no read in between: the vocabulary of the recency properties.\<close>

definition lru_keys :: "'v lru_cache \<Rightarrow> string list" where
  "lru_keys c = od_keys (cache c)"

fun lru_set_all ::
  "(string \<times> 'v \<times> int option \<times> string \<times> datetime) list \<Rightarrow> 'v lru_cache \<Rightarrow> 'v lru_cache" where
  "lru_set_all [] c = c"
| "lru_set_all ((k, v, ttl, st, now) # rest) c = lru_set_all rest (lru_set k v ttl st now c)"

subsection \<open>The tiered cache manager (\<^verbatim>\<open>CacheManager\<close>)\<close>

definition MEMORY_TTL :: int where "MEMORY_TTL = 600"
definition ACTIVE_CASE_TTL :: int where "ACTIVE_CASE_TTL = 3600"
definition CLOSED_CASE_TTL :: int where "CLOSED_CASE_TTL = 86400"

record cache_stats =
  memory_hits :: int
  memory_misses :: int
  redis_hits :: int
  redis_misses :: int
  db_hits :: int
  db_misses :: int
  total_sets :: int
  total_deletes :: int

definition zero_stats :: cache_stats where
  "zero_stats = \<lparr>memory_hits = 0, memory_misses = 0, redis_hits = 0, redis_misses = 0,
     db_hits = 0, db_misses = 0, total_sets = 0, total_deletes = 0\<rparr>"

record 'v cache_manager =
  enable_memory_cache :: bool
  enable_redis_cache :: bool
  enable_db_cache :: bool
  memory_cache :: "'v lru_cache option"
  stats :: cache_stats

text \<open>\<^verbatim>\<open>CacheManager.__init__\<close> and \<^verbatim>\<open>create_cache_manager\<close>. Of the two clients the
  constructor reads only whether they are \<^verbatim>\<open>None\<close>.\<close>

definition create_cache_manager :: "bool \<Rightarrow> bool \<Rightarrow> bool \<Rightarrow> bool \<Rightarrow> bool \<Rightarrow> 'v cache_manager" where
  "create_cache_manager has_supabase_client has_redis_client enable_memory enable_redis enable_db =
    \<lparr>enable_memory_cache = enable_memory,
     enable_redis_cache = (enable_redis \<and> has_redis_client),
     enable_db_cache = (enable_db \<and> has_supabase_client),
     memory_cache = (if enable_memory then Some (new_lru_cache 1000 MEMORY_TTL) else None),
     stats = zero_stats\<rparr>"

text \<open>\<^verbatim>\<open>":".join(parts)\<close>.\<close>

fun join :: "string \<Rightarrow> string list \<Rightarrow> string" where
  "join sep [] = []"
| "join sep [p] = p"
| "join sep (p # q # ps) = p @ sep @ join sep (q # ps)"

text \<open>\<^verbatim>\<open>CacheManager._generate_cache_key\<close>. \<^verbatim>\<open>if dimension:\<close> is false for \<^verbatim>\<open>None\<close> and
  for the empty string. Strings are byte strings, so \<^verbatim>\<open>encode()\<close> is the identity.\<close>

definition generate_cache_key ::
  "(string \<Rightarrow> string) \<Rightarrow> string \<Rightarrow> string \<Rightarrow> string \<Rightarrow> string option \<Rightarrow> string" where
  "generate_cache_key md5 client_id case_id scope dimension =
    (let key_parts = [client_id, case_id, scope] @
           (case dimension of None \<Rightarrow> [] | Some d \<Rightarrow> if bool_str d then [d] else []);
         key_string = join '':'' key_parts;
         key_hash = md5 key_string
     in ''context:'' @ client_id @ '':'' @ case_id @ '':'' @ scope @ '':'' @ take 8 key_hash)"

text \<open>The Redis and database tiers are the placeholders of the source: a read finds
  nothing, a write does nothing, a delete removes nothing.\<close>

definition get_from_redis :: "string \<Rightarrow> 'v option" where
  "get_from_redis k = None"

definition set_in_redis :: "string \<Rightarrow> 'v \<Rightarrow> int \<Rightarrow> 'v cache_manager \<Rightarrow> 'v cache_manager" where
  "set_in_redis k v ttl m = m"

definition delete_from_redis :: "string \<Rightarrow> bool" where
  "delete_from_redis k = False"

definition get_from_database :: "string \<Rightarrow> 'v option" where
  "get_from_database k = None"

definition set_in_database :: "string \<Rightarrow> 'v \<Rightarrow> string \<Rightarrow> string \<Rightarrow> 'v cache_manager \<Rightarrow> 'v cache_manager" where
  "set_in_database k v cid status m = m"

definition delete_from_database :: "string \<Rightarrow> bool" where
  "delete_from_database k = False"

text \<open>The guard \<^verbatim>\<open>self.enable_memory_cache and self.memory_cache\<close>, with the tier.\<close>

definition memory_tier :: "'v cache_manager \<Rightarrow> 'v lru_cache option" where
  "memory_tier m = (if enable_memory_cache m then memory_cache m else None)"

text \<open>\<^verbatim>\<open>CacheManager.get\<close>.\<close>

definition cache_get ::
  "(string \<Rightarrow> string) \<Rightarrow> string \<Rightarrow> string \<Rightarrow> string \<Rightarrow> string option \<Rightarrow> datetime
    \<Rightarrow> 'v cache_manager \<Rightarrow> 'v option \<times> 'v cache_manager" where
  "cache_get md5 client_id case_id scope dimension now m =
    (let cache_key = generate_cache_key md5 client_id case_id scope dimension;
         (hit1, m1) =
           (case memory_tier m of
              None \<Rightarrow> (None, m)
            | Some mc \<Rightarrow>
               (case lru_get cache_key now mc of
                  (Some v, mc') \<Rightarrow>
                    (Some v, m\<lparr>memory_cache := Some mc',
                               stats := (stats m)\<lparr>memory_hits := memory_hits (stats m) + 1\<rparr>\<rparr>)
                | (None, mc') \<Rightarrow>
                    (None, m\<lparr>memory_cache := Some mc',
                             stats := (stats m)\<lparr>memory_misses := memory_misses (stats m) + 1\<rparr>\<rparr>)))
     in case hit1 of
          Some v \<Rightarrow> (Some v, m1)
        | None \<Rightarrow>
           (let (hit2, m2) =
                  (if enable_redis_cache m1 then
                     (case get_from_redis cache_key of
                        Some v \<Rightarrow>
                          (let m' = m1\<lparr>stats := (stats m1)\<lparr>redis_hits := redis_hits (stats m1) + 1\<rparr>\<rparr>
                           in (Some v,
                               case memory_tier m' of
                                 None \<Rightarrow> m'
                               | Some mc \<Rightarrow>
                                   m'\<lparr>memory_cache :=
                                        Some (lru_set cache_key v (Some MEMORY_TTL) ''active'' now mc)\<rparr>))
                      | None \<Rightarrow>
                          (None, m1\<lparr>stats := (stats m1)\<lparr>redis_misses := redis_misses (stats m1) + 1\<rparr>\<rparr>))
                   else (None, m1))
            in case hit2 of
                 Some v \<Rightarrow> (Some v, m2)
               | None \<Rightarrow>
                  (if enable_db_cache m2 then
                     (case get_from_database cache_key of
                        Some v \<Rightarrow>
                          (let m' = m2\<lparr>stats := (stats m2)\<lparr>db_hits := db_hits (stats m2) + 1\<rparr>\<rparr>;
                               m'' = (if enable_redis_cache m'
                                      then set_in_redis cache_key v ACTIVE_CASE_TTL m' else m')
                           in (Some v,
                               case memory_tier m'' of
                                 None \<Rightarrow> m''
                               | Some mc \<Rightarrow>
                                   m''\<lparr>memory_cache :=
                                         Some (lru_set cache_key v (Some MEMORY_TTL) ''active'' now mc)\<rparr>))
                      | None \<Rightarrow>
                          (None, m2\<lparr>stats := (stats m2)\<lparr>db_misses := db_misses (stats m2) + 1\<rparr>\<rparr>))
                   else (None, m2))))"

text \<open>\<^verbatim>\<open>CacheManager.set\<close>.\<close>

definition cache_set ::
  "(string \<Rightarrow> string) \<Rightarrow> string \<Rightarrow> string \<Rightarrow> string \<Rightarrow> 'v \<Rightarrow> string \<Rightarrow> string option \<Rightarrow> datetime
    \<Rightarrow> 'v cache_manager \<Rightarrow> 'v cache_manager" where
  "cache_set md5 client_id case_id scope v status dimension now m =
    (let cache_key = generate_cache_key md5 client_id case_id scope dimension;
         redis_db_ttl = (if status = ''active'' then ACTIVE_CASE_TTL else CLOSED_CASE_TTL);
         m1 = (case memory_tier m of
                 None \<Rightarrow> m
               | Some mc \<Rightarrow>
                   m\<lparr>memory_cache := Some (lru_set cache_key v (Some MEMORY_TTL) status now mc)\<rparr>);
         m2 = (if enable_redis_cache m1 then set_in_redis cache_key v redis_db_ttl m1 else m1);
         m3 = (if enable_db_cache m2 then set_in_database cache_key v case_id status m2 else m2)
     in m3\<lparr>stats := (stats m3)\<lparr>total_sets := total_sets (stats m3) + 1\<rparr>\<rparr>)"

text \<open>The body both branches of \<^verbatim>\<open>CacheManager.delete\<close> run for one key: every enabled
  tier is asked to delete it, and each tier that reports a removal counts once.\<close>

definition delete_key :: "string \<Rightarrow> int \<times> 'v cache_manager \<Rightarrow> int \<times> 'v cache_manager" where
  "delete_key cache_key acc =
    (let (deleted_count, m) = acc;
         (n1, m1) =
           (case memory_tier m of
              None \<Rightarrow> (deleted_count, m)
            | Some mc \<Rightarrow>
               (case lru_delete cache_key mc of
                  (True, mc') \<Rightarrow> (deleted_count + 1, m\<lparr>memory_cache := Some mc'\<rparr>)
                | (False, mc') \<Rightarrow> (deleted_count, m\<lparr>memory_cache := Some mc'\<rparr>)));
         n2 = (if enable_redis_cache m1 \<and> delete_from_redis cache_key then n1 + 1 else n1);
         n3 = (if enable_db_cache m1 \<and> delete_from_database cache_key then n2 + 1 else n2)
     in (n3, m1))"

text \<open>\<^verbatim>\<open>CacheManager.delete\<close>. \<^verbatim>\<open>if scope:\<close> is false for \<^verbatim>\<open>None\<close> and for the empty
  string.\<close>

definition cache_delete ::
  "(string \<Rightarrow> string) \<Rightarrow> string \<Rightarrow> string \<Rightarrow> string option \<Rightarrow> string option
    \<Rightarrow> 'v cache_manager \<Rightarrow> int \<times> 'v cache_manager" where
  "cache_delete md5 client_id case_id scope dimension m =
    (let (deleted_count, m') =
           (case scope of
              Some s \<Rightarrow>
                if bool_str s
                then delete_key (generate_cache_key md5 client_id case_id s dimension) (0, m)
                else foldl (\<lambda>acc scope_name.
                        delete_key (generate_cache_key md5 client_id case_id scope_name dimension) acc)
                      (0, m) [''minimal'', ''standard'', ''comprehensive'']
            | None \<Rightarrow>
                foldl (\<lambda>acc scope_name.
                        delete_key (generate_cache_key md5 client_id case_id scope_name dimension) acc)
                      (0, m) [''minimal'', ''standard'', ''comprehensive''])
     in (deleted_count,
         m'\<lparr>stats := (stats m')\<lparr>total_deletes := total_deletes (stats m') + deleted_count\<rparr>\<rparr>))"

text \<open>\<^verbatim>\<open>CacheManager.invalidate_case\<close>: \<^verbatim>\<open>return await self.delete(client_id, case_id)\<close>.\<close>

definition invalidate_case ::
  "(string \<Rightarrow> string) \<Rightarrow> string \<Rightarrow> string \<Rightarrow> 'v cache_manager \<Rightarrow> int \<times> 'v cache_manager" where
  "invalidate_case md5 client_id case_id m = cache_delete md5 client_id case_id None None m"

definition reset_stats :: "'v cache_manager \<Rightarrow> 'v cache_manager" where
  "reset_stats m = m\<lparr>stats := zero_stats\<rparr>"

subsection \<open>Dimension selection (\<^verbatim>\<open>ContextBuilder.SCOPES\<close>, \<^verbatim>\<open>_determine_dimensions\<close>)\<close>

definition SCOPES :: "(string \<times> string list) list" where
  "SCOPES =
    [(''minimal'', [''WHO'', ''WHERE'']),
     (''standard'', [''WHO'', ''WHAT'', ''WHERE'', ''WHEN'']),
     (''comprehensive'', [''WHO'', ''WHAT'', ''WHERE'', ''WHEN'', ''WHY''])]"

definition valid_dimensions :: "string list" where
  "valid_dimensions = [''WHO'', ''WHAT'', ''WHERE'', ''WHEN'', ''WHY'']"

text \<open>The \<^verbatim>\<open>repr\<close> of a list of strings that hold no quote, backslash or control
  character, as the keys of \<^verbatim>\<open>SCOPES\<close> do: \<^verbatim>\<open>['minimal', 'standard']\<close>.\<close>

definition str_repr :: "string \<Rightarrow> string" where
  "str_repr s = [CHR 0x27] @ s @ [CHR 0x27]"

definition list_repr :: "string list \<Rightarrow> string" where
  "list_repr xs = ''['' @ join '', '' (map str_repr xs) @ '']''"

text \<open>\<^verbatim>\<open>_determine_dimensions\<close>. \<^verbatim>\<open>if include_dimensions:\<close> is false for \<^verbatim>\<open>None\<close> and for
  the empty list; \<^verbatim>\<open>invalid\<close> is the set \<^verbatim>\<open>set(include_dimensions) - valid_dimensions\<close>.
  The messages are
  \<^verbatim>\<open>f"Invalid dimension names: {invalid}. Valid dimensions: {valid_dimensions}"\<close> and
  \<^verbatim>\<open>f"Invalid scope: {scope}. Valid scopes: {list(self.SCOPES.keys())}"\<close>.\<close>

definition determine_dimensions :: "string \<Rightarrow> string list option \<Rightarrow> error + string list" where
  "determine_dimensions scope include_dimensions =
    (let explicit = (case include_dimensions of None \<Rightarrow> [] | Some ds \<Rightarrow> ds) in
     if explicit \<noteq> [] then
       (let invalid = set explicit - set valid_dimensions in
        if invalid \<noteq> {}
        then Inl (ValueError [Text ''Invalid dimension names: '', SetRepr invalid,
                              Text ''. Valid dimensions: '', SetRepr (set valid_dimensions)])
        else Inr explicit)
     else
       (case map_of SCOPES scope of
          None \<Rightarrow> Inl (ValueError [Text (''Invalid scope: '' @ scope @ ''. Valid scopes: ''
                                          @ list_repr (map fst SCOPES))])
        | Some ds \<Rightarrow> Inr ds))"

subsection \<open>The analyzers and the fan-out (\<^verbatim>\<open>_build_dimensions_parallel\<close>)\<close>

text \<open>The outcome of one call of \<^verbatim>\<open>analyze\<close>: it raised an instance of \<^verbatim>\<open>Exception\<close>
  (an error, a timeout), it raised an exception outside \<^verbatim>\<open>Exception\<close> that
  \<^verbatim>\<open>asyncio.gather(..., return_exceptions=True)\<close> hands back as a result
  (\<^verbatim>\<open>asyncio.CancelledError\<close>), or it returned a context.\<close>

datatype 'a outcome = Raised string | RaisedBase string | Returned 'a

record analyzers =
  who_analyzer :: "who_context outcome"
  what_analyzer :: "what_context outcome"
  where_analyzer :: "where_context outcome"
  when_analyzer :: "when_context outcome"
  why_analyzer :: "why_context outcome"

text \<open>The dictionary \<^verbatim>\<open>tasks\<close>: one call per requested dimension, in the fixed order of
  the five \<^verbatim>\<open>if\<close> statements.\<close>

definition tasks :: "analyzers \<Rightarrow> string list \<Rightarrow> (string \<times> dim_context outcome) list" where
  "tasks an dimensions =
    (if ''WHO'' \<in> set dimensions then [(''WHO'', map_outcome WhoC (who_analyzer an))] else []) @
    (if ''WHAT'' \<in> set dimensions then [(''WHAT'', map_outcome WhatC (what_analyzer an))] else []) @
    (if ''WHERE'' \<in> set dimensions then [(''WHERE'', map_outcome WhereC (where_analyzer an))] else []) @
    (if ''WHEN'' \<in> set dimensions then [(''WHEN'', map_outcome WhenC (when_analyzer an))] else []) @
    (if ''WHY'' \<in> set dimensions then [(''WHY'', map_outcome WhyC (why_analyzer an))] else [])"

text \<open>The calls of \<^verbatim>\<open>analyze\<close> that \<^verbatim>\<open>_build_dimensions_parallel\<close> makes: one for each
  entry of \<^verbatim>\<open>tasks\<close>.\<close>

definition analyzer_calls :: "analyzers \<Rightarrow> string list \<Rightarrow> string list" where
  "analyzer_calls an dimensions = map fst (tasks an dimensions)"

text \<open>\<^verbatim>\<open>asyncio.gather(..., return_exceptions=True)\<close> waits for every task and hands back
  every outcome. The loop maps a result that is an instance of \<^verbatim>\<open>Exception\<close> to
  \<^verbatim>\<open>None\<close> and stores every other result as it is, also an exception object that is not
  an instance of \<^verbatim>\<open>Exception\<close>.\<close>

definition build_dimensions_parallel :: "analyzers \<Rightarrow> string list \<Rightarrow> dimension_results" where
  "build_dimensions_parallel an dimensions =
    map (\<lambda>(dimension_name, result).
          (dimension_name,
           case result of
             Raised e \<Rightarrow> None
           | RaisedBase e \<Rightarrow> Some (ExceptionObject e)
           | Returned c \<Rightarrow> Some c))
        (tasks an dimensions)"

subsection \<open>The composite (\<^verbatim>\<open>ContextResponse\<close>, \<^verbatim>\<open>build_context\<close>)\<close>

text \<open>\<^verbatim>\<open>query_id\<close>, a random UUID, is left out.\<close>

record context_response =
  resp_case_id :: string
  resp_case_name :: string
  resp_who :: "who_context option"
  resp_what :: "what_context option"
  resp_where :: "where_context option"
  resp_when :: "when_context option"
  resp_why :: "why_context option"
  context_score :: real
  is_complete :: bool
  cached :: bool
  execution_time_ms :: int
  timestamp :: datetime


text \<open>\<^verbatim>\<open>dict.get(k)\<close>: \<^verbatim>\<open>None\<close> for an absent key.\<close>

definition dict_get :: "dimension_results \<Rightarrow> string \<Rightarrow> dim_context option" where
  "dict_get d k = (case map_of d k of None \<Rightarrow> None | Some v \<Rightarrow> v)"

text \<open>The validation of the constructor \<^verbatim>\<open>ContextResponse(...)\<close>: each dimension field
  takes \<^verbatim>\<open>None\<close> or a context of its own class, and \<^verbatim>\<open>context_score\<close> is declared
  \<^verbatim>\<open>Field(ge=0.0, le=1.0)\<close>.\<close>

definition make_context_response ::
  "string \<Rightarrow> string \<Rightarrow> dim_context option \<Rightarrow> dim_context option \<Rightarrow> dim_context option
    \<Rightarrow> dim_context option \<Rightarrow> dim_context option \<Rightarrow> real \<Rightarrow> bool \<Rightarrow> bool \<Rightarrow> int \<Rightarrow> datetime
    \<Rightarrow> error + context_response" where
  "make_context_response cid name who what wher whn why score is_done is_cached elapsed_ms ts =
    (let who_ok = (case who of None \<Rightarrow> True | Some (WhoC c) \<Rightarrow> True | Some _ \<Rightarrow> False);
         what_ok = (case what of None \<Rightarrow> True | Some (WhatC c) \<Rightarrow> True | Some _ \<Rightarrow> False);
         where_ok = (case wher of None \<Rightarrow> True | Some (WhereC c) \<Rightarrow> True | Some _ \<Rightarrow> False);
         when_ok = (case whn of None \<Rightarrow> True | Some (WhenC c) \<Rightarrow> True | Some _ \<Rightarrow> False);
         why_ok = (case why of None \<Rightarrow> True | Some (WhyC c) \<Rightarrow> True | Some _ \<Rightarrow> False)
     in if who_ok \<and> what_ok \<and> where_ok \<and> when_ok \<and> why_ok \<and> 0 \<le> score \<and> score \<le> 1
        then Inr \<lparr>resp_case_id = cid, resp_case_name = name,
                  resp_who = (case who of Some (WhoC c) \<Rightarrow> Some c | _ \<Rightarrow> None),
                  resp_what = (case what of Some (WhatC c) \<Rightarrow> Some c | _ \<Rightarrow> None),
                  resp_where = (case wher of Some (WhereC c) \<Rightarrow> Some c | _ \<Rightarrow> None),
                  resp_when = (case whn of Some (WhenC c) \<Rightarrow> Some c | _ \<Rightarrow> None),
                  resp_why = (case why of Some (WhyC c) \<Rightarrow> Some c | _ \<Rightarrow> None),
                  context_score = score, is_complete = is_done, cached = is_cached,
                  execution_time_ms = elapsed_ms, timestamp = ts\<rparr>
        else Inl ValidationError)"

text \<open>\<^verbatim>\<open>_get_case_name\<close>: the first result with a name that is neither empty nor the
  placeholder. \<open>context_case_name\<close> is \<^verbatim>\<open>context.case_name\<close> where
  \<^verbatim>\<open>hasattr(context, 'case_name')\<close> holds.\<close>

definition context_case_name :: "dim_context \<Rightarrow> string option" where
  "context_case_name ctx =
    (case ctx of WhoC c \<Rightarrow> Some (model_case_name c) | WhatC c \<Rightarrow> Some (model_case_name c)
     | WhereC c \<Rightarrow> Some (model_case_name c) | WhenC c \<Rightarrow> Some (model_case_name c)
     | WhyC c \<Rightarrow> Some (model_case_name c) | ExceptionObject e \<Rightarrow> None)"

fun get_case_name :: "dimension_results \<Rightarrow> string \<Rightarrow> string" where
  "get_case_name [] case_id = ''Case '' @ case_id"
| "get_case_name ((dimension_name, context) # rest) case_id =
    (case context of
       None \<Rightarrow> get_case_name rest case_id
     | Some ctx \<Rightarrow>
        (case context_case_name ctx of
           None \<Rightarrow> get_case_name rest case_id
         | Some name \<Rightarrow>
             if bool_str name \<and> name \<noteq> ''Case '' @ case_id
             then name
             else get_case_name rest case_id))"

text \<open>What the cache holds for the aggregator: the dictionary \<^verbatim>\<open>model_dump()\<close> makes of a
  composite, or any other dictionary (an empty one, or one \<^verbatim>\<open>ContextResponse(**d)\<close>
  rejects).\<close>

datatype cached_data = ContextDump context_response | OtherDict

text \<open>\<^verbatim>\<open>_check_cache\<close>: an empty dictionary is false, a rejected one raises inside the
  \<^verbatim>\<open>try\<close>; both give \<^verbatim>\<open>None\<close>.\<close>

definition check_cache ::
  "(string \<Rightarrow> string) \<Rightarrow> string \<Rightarrow> string \<Rightarrow> string \<Rightarrow> datetime \<Rightarrow> cached_data cache_manager
    \<Rightarrow> context_response option \<times> cached_data cache_manager" where
  "check_cache md5 client_id case_id scope now m =
    (case cache_get md5 client_id case_id scope None now m of
       (Some (ContextDump r), m') \<Rightarrow> (Some r, m')
     | (Some OtherDict, m') \<Rightarrow> (None, m')
     | (None, m') \<Rightarrow> (None, m'))"

text \<open>\<^verbatim>\<open>_cache_context\<close>; the case status is the constant \<^verbatim>\<open>"active"\<close>.\<close>

definition cache_context ::
  "(string \<Rightarrow> string) \<Rightarrow> string \<Rightarrow> string \<Rightarrow> string \<Rightarrow> context_response \<Rightarrow> datetime
    \<Rightarrow> cached_data cache_manager \<Rightarrow> cached_data cache_manager" where
  "cache_context md5 client_id case_id scope r now m =
    cache_set md5 client_id case_id scope (ContextDump r) ''active'' None now m"

text \<open>\<^verbatim>\<open>build_context\<close>. \<open>now\<close> is the clock at the cache check, \<open>later\<close> the clock when
  the composite is built and stored. The result is what the call returns or raises, the
  cache manager it leaves, and the calls of \<^verbatim>\<open>analyze\<close> it has made: none before the
  fan-out, those of \<^verbatim>\<open>_build_dimensions_parallel\<close> from there on.\<close>

definition build_context ::
  "(string \<Rightarrow> string) \<Rightarrow> analyzers \<Rightarrow> string \<Rightarrow> string \<Rightarrow> string \<Rightarrow> string list option \<Rightarrow> bool
    \<Rightarrow> datetime \<Rightarrow> datetime \<Rightarrow> cached_data cache_manager
    \<Rightarrow> (error + context_response) \<times> cached_data cache_manager \<times> string list" where
  "build_context md5 an client_id case_id scope include_dimensions use_cache now later m =
    (let (cached_context, m1) =
           (if use_cache then check_cache md5 client_id case_id scope now m else (None, m))
     in case cached_context of
          Some r \<Rightarrow> (Inr (r\<lparr>cached := True\<rparr>), m1, [])
        | None \<Rightarrow>
           (case determine_dimensions scope include_dimensions of
              Inl e \<Rightarrow> (Inl e, m1, [])
            | Inr dimensions_to_build \<Rightarrow>
               (let dimension_results = build_dimensions_parallel an dimensions_to_build;
                    calls = analyzer_calls an dimensions_to_build
                in case calculate_context_score dimension_results of
                     Inl e \<Rightarrow> (Inl e, m1, calls)
                   | Inr score \<Rightarrow>
                      (let is_done = (score \<ge> COMPLETENESS_THRESHOLD);
                           elapsed_ms = (later - now) div 1000;
                           name = get_case_name dimension_results case_id
                       in case make_context_response case_id name
                                 (dict_get dimension_results ''WHO'')
                                 (dict_get dimension_results ''WHAT'')
                                 (dict_get dimension_results ''WHERE'')
                                 (dict_get dimension_results ''WHEN'')
                                 (dict_get dimension_results ''WHY'')
                                 score is_done False elapsed_ms later of
                            Inl e \<Rightarrow> (Inl e, m1, calls)
                          | Inr r \<Rightarrow>
                              (Inr r,
                               if is_done \<and> use_cache
                               then cache_context md5 client_id case_id scope r later m1
                               else m1,
                               calls)))))"

subsection \<open>Single-dimension quality (\<^verbatim>\<open>DimensionQualityMetrics\<close>, \<^verbatim>\<open>get_dimension_quality\<close>)\<close>

record dimension_quality_metrics =
  metrics_dimension_name :: string
  completeness_score :: real
  metrics_data_points :: int
  confidence_avg :: real
  is_sufficient :: bool

text \<open>The constructor \<^verbatim>\<open>DimensionQualityMetrics(...)\<close>: \<^verbatim>\<open>completeness_score\<close> and
  \<^verbatim>\<open>confidence_avg\<close> are declared \<^verbatim>\<open>Field(ge=0.0, le=1.0)\<close>, and the validator of
  \<^verbatim>\<open>is_sufficient\<close> recomputes the flag from the score.\<close>

definition make_dimension_quality_metrics ::
  "string \<Rightarrow> real \<Rightarrow> int \<Rightarrow> real \<Rightarrow> bool \<Rightarrow> error + dimension_quality_metrics" where
  "make_dimension_quality_metrics name score points confidence sufficient =
    (if 0 \<le> score \<and> score \<le> 1 \<and> 0 \<le> confidence \<and> confidence \<le> 1
     then Inr \<lparr>metrics_dimension_name = name, completeness_score = score,
               metrics_data_points = points, confidence_avg = confidence,
               is_sufficient = (score \<ge> 85 / 100)\<rparr>
     else Inl ValidationError)"

text \<open>\<^verbatim>\<open>str.upper()\<close> on the ASCII letters (strings are byte strings).\<close>

definition upper_char :: "char \<Rightarrow> char" where
  "upper_char c =
    (let n = (of_char c :: nat) in if 97 \<le> n \<and> n \<le> 122 then char_of (n - 32) else c)"

definition upper :: "string \<Rightarrow> string" where
  "upper s = map upper_char s"

text \<open>\<^verbatim>\<open>analyzer_map[dimension_name].analyze(client_id, case_id)\<close>, for a valid name.\<close>

definition analyze :: "analyzers \<Rightarrow> string \<Rightarrow> dim_context outcome" where
  "analyze an dimension_name =
    (if dimension_name = ''WHO'' then map_outcome WhoC (who_analyzer an)
     else if dimension_name = ''WHAT'' then map_outcome WhatC (what_analyzer an)
     else if dimension_name = ''WHERE'' then map_outcome WhereC (where_analyzer an)
     else if dimension_name = ''WHEN'' then map_outcome WhenC (when_analyzer an)
     else map_outcome WhyC (why_analyzer an))"

text \<open>\<^verbatim>\<open>get_dimension_quality\<close>. An exception of the analyzer, of either kind, is not
  caught here. The message is
  \<^verbatim>\<open>f"Invalid dimension: {dimension_name}. Valid dimensions: {valid_dimensions}"\<close>.\<close>

definition get_dimension_quality :: "analyzers \<Rightarrow> string \<Rightarrow> error + dimension_quality_metrics" where
  "get_dimension_quality an dimension_name =
    (let name = upper dimension_name in
     if name \<notin> set valid_dimensions
     then Inl (ValueError [Text (''Invalid dimension: '' @ name @ ''. Valid dimensions: ''),
                           SetRepr (set valid_dimensions)])
     else
       (case analyze an name of
          Raised e \<Rightarrow> Inl (AnalyzerError e)
        | RaisedBase e \<Rightarrow> Inl (AnalyzerError e)
        | Returned ctx \<Rightarrow>
           (case score_dimension name (Some ctx) of
              Inl e \<Rightarrow> Inl e
            | Inr score \<Rightarrow>
               (case count_data_points name (Some ctx) of
                  Inl e \<Rightarrow> Inl e
                | Inr points \<Rightarrow>
                    make_dimension_quality_metrics name score points (9 / 10)
                      (score \<ge> COMPLETENESS_THRESHOLD)))))"

subsection \<open>The vocabulary of the scoring and failure properties\<close>

text \<open>The score of one entry of the dimension results as a number: what
  \<^const>\<open>score_dimension\<close> returns, \<open>0.0\<close> for an absent dimension.\<close>

definition dimension_score :: "string \<Rightarrow> dim_context option \<Rightarrow> real" where
  "dimension_score dimension_name context =
    (case score_dimension dimension_name context of Inr s \<Rightarrow> s | Inl e \<Rightarrow> 0)"

text \<open>The composite score in the words of the specification: the mean of all
  per-dimension scores, an absent dimension counting as \<open>0.0\<close>, times the number of
  successful dimensions over the number of requested ones, clamped to \<open>[0,1]\<close>; \<open>0.0\<close>
  for an empty request.\<close>

definition spec_composite_score :: "dimension_results \<Rightarrow> real" where
  "spec_composite_score rs =
    (if rs = [] then 0
     else min 1 (max 0
       ((sum_list (map (\<lambda>(n, c). dimension_score n c) rs) / real (length rs))
        * (real (length (filter (\<lambda>(n, c). c \<noteq> None) rs)) / real (length rs)))))"

text \<open>The entries of a dictionary whose context has the class its dimension name asks
  for, as every dictionary the fan-out builds has.\<close>

definition well_typed :: "dimension_results \<Rightarrow> bool" where
  "well_typed rs = list_all (\<lambda>(n, c). \<not> isl (score_dimension n c)) rs"


definition raised_base :: "'a outcome \<Rightarrow> bool" where
  "raised_base r = (case r of Raised e \<Rightarrow> False | RaisedBase e \<Rightarrow> True | Returned c \<Rightarrow> False)"

definition returned :: "'a outcome \<Rightarrow> 'a option" where
  "returned r = (case r of Raised e \<Rightarrow> None | RaisedBase e \<Rightarrow> None | Returned c \<Rightarrow> Some c)"


definition base_raise_count :: "analyzers \<Rightarrow> nat" where
  "base_raise_count an =
    of_bool (raised_base (who_analyzer an)) + of_bool (raised_base (what_analyzer an)) +
    of_bool (raised_base (where_analyzer an)) + of_bool (raised_base (when_analyzer an)) +
    of_bool (raised_base (why_analyzer an))"

section \<open>Properties\<close>

subsection \<open>Per-dimension scores\<close>

lemma score_dimension_when:
  "score_dimension ''WHEN'' (Some (WhenC c)) =
     Inr (min 1 (real (length (timeline c) + length (upcoming_deadlines c)
                       + length (past_deadlines c)) / 10) + 3 / 10)"
  by (simp add: score_dimension_def bool_datetime_def)

lemma count_data_points_when:
  "count_data_points ''WHEN'' (Some (WhenC c)) =
     Inr (int (length (timeline c) + length (upcoming_deadlines c) + length (past_deadlines c)))"
  by (simp add: count_data_points_def)




lemma boost_above_one: "(8::real) \<le> x \<Longrightarrow> 1 < min 1 (x / 10) + 3 / 10"
  unfolding min_def by (cases "x / 10 \<le> 1") simp_all

text \<open>
  Claim C1 (the per-dimension score lies in \<open>[0,1]\<close> and saturates at \<open>1.0\<close>). The
  docstring of \<^verbatim>\<open>_score_dimension\<close> promises a score in \<open>0.0-1.0\<close> and the branches of
  WHO, WHAT, WHERE and WHY keep it there (\<open>score_dimension_nonneg\<close>,
  \<open>score_dimension_le_one\<close>), but the WHEN branch adds the filing-date boost of \<open>0.3\<close>
  after the clamp: a WHEN context with eight data points scores \<open>1.1\<close>.
\<close>

theorem score_dimension_when_above_one:
  "score_dimension ''WHEN''
     (Some (WhenC \<lparr>model_case_id = ''case-1'', model_case_name = ''Case case-1'',
                   filing_date = 0, timeline = replicate 8 ''event'',
                   upcoming_deadlines = [], past_deadlines = []\<rparr>)) = Inr (11 / 10)"
  by (simp add: score_dimension_def bool_datetime_def)

subsection \<open>Single-dimension quality\<close>

text \<open>
  Claim C10. For a WHEN context with at least eight timeline and deadline entries (its
  filing date is a required field) the completeness score is above \<open>1.0\<close>, the
  constructor of \<^verbatim>\<open>DimensionQualityMetrics\<close> rejects it, and
  \<^verbatim>\<open>get_dimension_quality\<close> ends in the validation error instead of returning metrics.
\<close>

theorem dimension_quality_when_rejected:
  assumes "upper dimension_name = ''WHEN''"
    and "when_analyzer an = Returned c"
    and "length (timeline c) + length (upcoming_deadlines c) + length (past_deadlines c) \<ge> 8"
  shows "\<exists>s. score_dimension ''WHEN'' (Some (WhenC c)) = Inr s \<and> s > 1 \<and>
             make_dimension_quality_metrics ''WHEN'' s
               (int (length (timeline c) + length (upcoming_deadlines c)
                     + length (past_deadlines c)))
               (9 / 10) (s \<ge> COMPLETENESS_THRESHOLD) = Inl ValidationError \<and>
             get_dimension_quality an dimension_name = Inl ValidationError"
proof -
  let ?n = "length (timeline c) + length (upcoming_deadlines c) + length (past_deadlines c)"
  let ?s = "min 1 (real ?n / 10) + 3 / 10"
  have s: "score_dimension ''WHEN'' (Some (WhenC c)) = Inr ?s"
    by (rule score_dimension_when)
  have "real ?n \<ge> 8" using assms(3) by linarith
  then have big: "?s > 1" by (rule boost_above_one)
  have rej: "make_dimension_quality_metrics ''WHEN'' ?s (int ?n) (9 / 10)
               (?s \<ge> COMPLETENESS_THRESHOLD) = Inl ValidationError"
    using big by (simp add: make_dimension_quality_metrics_def)
  have an: "analyze an ''WHEN'' = Returned (WhenC c)"
    by (simp add: analyze_def assms(2))
  have "get_dimension_quality an dimension_name = Inl ValidationError"
    unfolding get_dimension_quality_def Let_def assms(1)
    using rej by (simp add: valid_dimensions_def an s count_data_points_when)
  with s big rej show ?thesis by blast
qed

theorem dimension_quality_when_rejected_witness:
  "upper ''when'' = ''WHEN'' \<and>
   get_dimension_quality
     \<lparr>who_analyzer = Raised ''down'', what_analyzer = Raised ''down'',
      where_analyzer = Raised ''down'',
      when_analyzer = Returned \<lparr>model_case_id = ''c'', model_case_name = ''n'', filing_date = 0,
        timeline = replicate 5 ''e'', upcoming_deadlines = [''d1'', ''d2''],
        past_deadlines = [''d0'']\<rparr>,
      why_analyzer = Raised ''down''\<rparr> ''when'' = Inl ValidationError"
proof -
  have u: "upper ''when'' = ''WHEN''" by code_simp
  show ?thesis
    using u dimension_quality_when_rejected [where dimension_name = "''when''"
      and an = "\<lparr>who_analyzer = Raised ''down'', what_analyzer = Raised ''down'',
      where_analyzer = Raised ''down'',
      when_analyzer = Returned \<lparr>model_case_id = ''c'', model_case_name = ''n'', filing_date = 0,
        timeline = replicate 5 ''e'', upcoming_deadlines = [''d1'', ''d2''],
        past_deadlines = [''d0'']\<rparr>,
      why_analyzer = Raised ''down''\<rparr>"
      and c = "\<lparr>model_case_id = ''c'', model_case_name = ''n'', filing_date = 0,
        timeline = replicate 5 ''e'', upcoming_deadlines = [''d1'', ''d2''],
        past_deadlines = [''d0'']\<rparr>"]
    by auto
qed

subsection \<open>Dimension selection\<close>

lemma psubset_by_element: "A \<subseteq> B \<Longrightarrow> x \<in> B \<Longrightarrow> x \<notin> A \<Longrightarrow> A \<subset> B"
  by blast

text \<open>
  Claim C8. The three scopes select nested dimension lists: minimal is a strict subset of
  standard, standard a strict subset of comprehensive, they hold 2, 4 and 5 distinct
  names, and comprehensive is the whole set of five dimensions.
\<close>

theorem scope_monotonicity:
  "\<exists>dmin dstd dall.
     determine_dimensions ''minimal'' None = Inr dmin \<and>
     determine_dimensions ''standard'' None = Inr dstd \<and>
     determine_dimensions ''comprehensive'' None = Inr dall \<and>
     set dmin \<subset> set dstd \<and> set dstd \<subset> set dall \<and>
     distinct dmin \<and> distinct dstd \<and> distinct dall \<and>
     length dmin = 2 \<and> length dstd = 4 \<and> length dall = 5 \<and>
     set dall = set valid_dimensions"
proof -
  let ?dmin = "[''WHO'', ''WHERE'']"
  let ?dstd = "[''WHO'', ''WHAT'', ''WHERE'', ''WHEN'']"
  let ?dall = "[''WHO'', ''WHAT'', ''WHERE'', ''WHEN'', ''WHY'']"
  have a: "determine_dimensions ''minimal'' None = Inr ?dmin"
    by (simp add: determine_dimensions_def SCOPES_def)
  have b: "determine_dimensions ''standard'' None = Inr ?dstd"
    by (simp add: determine_dimensions_def SCOPES_def)
  have c: "determine_dimensions ''comprehensive'' None = Inr ?dall"
    by (simp add: determine_dimensions_def SCOPES_def)
  have d: "set ?dmin \<subset> set ?dstd"
    by (rule psubset_by_element [where x = "''WHAT''"]) simp_all
  have e: "set ?dstd \<subset> set ?dall"
    by (rule psubset_by_element [where x = "''WHY''"]) simp_all
  have f: "distinct ?dmin" "distinct ?dstd" "distinct ?dall" by simp_all
  have g: "set ?dall = set valid_dimensions" by (simp add: valid_dimensions_def)
  show ?thesis
    apply (rule exI [of _ ?dmin])
    apply (rule exI [of _ ?dstd])
    apply (rule exI [of _ ?dall])
    using a b c d e f g apply (intro conjI)
    apply assumption+
    apply simp_all
    done
qed

subsection \<open>Cache keys\<close>

lemma split_at_first_colon:
  "CHR '':'' \<notin> set x \<Longrightarrow> CHR '':'' \<notin> set x' \<Longrightarrow>
   x @ CHR '':'' # r = x' @ CHR '':'' # r' \<Longrightarrow> x = x' \<and> r = r'"
proof (induction x arbitrary: x')
  case Nil
  then show ?case by (cases x') auto
next
  case (Cons y ys)
  then show ?case by (cases x') auto
qed

lemma split_three_fields:
  assumes "CHR '':'' \<notin> set a" "CHR '':'' \<notin> set b" "CHR '':'' \<notin> set c"
    and "CHR '':'' \<notin> set a'" "CHR '':'' \<notin> set b'" "CHR '':'' \<notin> set c'"
    and eq: "a @ CHR '':'' # b @ CHR '':'' # c @ CHR '':'' # h =
             a' @ CHR '':'' # b' @ CHR '':'' # c' @ CHR '':'' # h'"
  shows "a = a' \<and> b = b' \<and> c = c' \<and> h = h'"
proof -
  from split_at_first_colon [OF assms(1) assms(4) eq]
  have a: "a = a'" and 2: "b @ CHR '':'' # c @ CHR '':'' # h = b' @ CHR '':'' # c' @ CHR '':'' # h'"
    by blast+
  from split_at_first_colon [OF assms(2) assms(5) 2]
  have b: "b = b'" and 3: "c @ CHR '':'' # h = c' @ CHR '':'' # h'"
    by blast+
  from split_at_first_colon [OF assms(3) assms(6) 3]
  have c: "c = c'" and h: "h = h'"
    by blast+
  from a b c h show ?thesis by blast
qed

lemma generate_cache_key_unfold:
  "generate_cache_key md5 a b c d =
     ''context:'' @ a @ CHR '':'' # b @ CHR '':'' # c @ CHR '':'' #
       take 8 (md5 (join '':'' ([a, b, c] @
         (case d of None \<Rightarrow> [] | Some x \<Rightarrow> if bool_str x then [x] else []))))"
  by (simp add: generate_cache_key_def Let_def)

lemma cache_key_fields:
  assumes "CHR '':'' \<notin> set a" "CHR '':'' \<notin> set b" "CHR '':'' \<notin> set c"
    and "CHR '':'' \<notin> set a'" "CHR '':'' \<notin> set b'" "CHR '':'' \<notin> set c'"
    and eq: "generate_cache_key md5 a b c d = generate_cache_key md5 a' b' c' d'"
  shows "a = a' \<and> b = b' \<and> c = c'"
proof -
  from eq have "a @ CHR '':'' # b @ CHR '':'' # c @ CHR '':'' #
       take 8 (md5 (join '':'' ([a, b, c] @
         (case d of None \<Rightarrow> [] | Some x \<Rightarrow> if bool_str x then [x] else [])))) =
     a' @ CHR '':'' # b' @ CHR '':'' # c' @ CHR '':'' #
       take 8 (md5 (join '':'' ([a', b', c'] @
         (case d' of None \<Rightarrow> [] | Some x \<Rightarrow> if bool_str x then [x] else []))))"
    unfolding generate_cache_key_unfold by simp
  from split_three_fields [OF assms(1-6) this] show ?thesis by blast
qed

lemma cache_key_empty_dimension:
  "generate_cache_key md5 a b c (Some '''') = generate_cache_key md5 a b c None"
  by (simp add: generate_cache_key_def bool_str_def)

lemma cache_key_same_fields:
  "generate_cache_key md5 a b c d = generate_cache_key md5 a b c d' \<longleftrightarrow>
     take 8 (md5 (join '':'' ([a, b, c] @
         (case d of None \<Rightarrow> [] | Some x \<Rightarrow> if bool_str x then [x] else [])))) =
     take 8 (md5 (join '':'' ([a, b, c] @
         (case d' of None \<Rightarrow> [] | Some x \<Rightarrow> if bool_str x then [x] else []))))"
  unfolding generate_cache_key_unfold by simp

lemma short_strings_finite: "finite {s :: string. length s \<le> 8}"
  using finite_lists_length_le [of "UNIV :: char set" 8] by simp

lemma dimension_collision:
  "\<exists>d d'. d \<noteq> d' \<and> d \<noteq> [] \<and> d' \<noteq> []
     \<and> generate_cache_key md5 a b c (Some d) = generate_cache_key md5 a b c (Some d')"
proof -
  let ?f = "\<lambda>d. take 8 (md5 (join '':'' [a, b, c, d]))"
  let ?A = "UNIV - {[]} :: string set"
  have inf: "infinite ?A" using infinite_UNIV_listI [where ?'a = char] by simp
  have "?f ` ?A \<subseteq> {s. length s \<le> 8}" by auto
  then have fin: "finite (?f ` ?A)" by (rule finite_subset) (rule short_strings_finite)
  have "\<not> inj_on ?f ?A"
  proof
    assume "inj_on ?f ?A"
    with fin have "finite ?A" by (rule finite_imageD)
    with inf show False by simp
  qed
  then obtain d d' where dd: "d \<in> ?A" "d' \<in> ?A" "?f d = ?f d'" "d \<noteq> d'"
    unfolding inj_on_def by blast
  then have "generate_cache_key md5 a b c (Some d) = generate_cache_key md5 a b c (Some d')"
    by (simp add: generate_cache_key_def bool_str_def)
  with dd show ?thesis by blast
qed

text \<open>
  Claim C6, as stated, fails: the fields are joined with \<open>:\<close> and are not escaped, so a
  colon moved from the tenant id to the case id gives the same key whatever the digest
  is; \<^verbatim>\<open>if dimension:\<close> takes the empty dimension for an absent one; and since the
  dimension enters the key only through eight characters of the digest, some two
  different dimensions share a key, whatever the digest is.
\<close>

theorem cache_key_collision:
  "\<forall>md5. (''a:b'', ''c'') \<noteq> (''a'', ''b:c'')
        \<and> generate_cache_key md5 ''a:b'' ''c'' ''minimal'' None
          = generate_cache_key md5 ''a'' ''b:c'' ''minimal'' None
        \<and> Some '''' \<noteq> (None :: string option)
        \<and> generate_cache_key md5 ''a'' ''b'' ''minimal'' (Some '''')
          = generate_cache_key md5 ''a'' ''b'' ''minimal'' None
        \<and> (\<exists>d d'. d \<noteq> d' \<and> d \<noteq> [] \<and> d' \<noteq> []
              \<and> generate_cache_key md5 ''a'' ''b'' ''minimal'' (Some d)
                = generate_cache_key md5 ''a'' ''b'' ''minimal'' (Some d'))"
  using dimension_collision [of _ "''a''" "''b''" "''minimal''"]
  by (simp add: generate_cache_key_def bool_str_def)

text \<open>
  Claim C6, amended. The key is a function of its four arguments in which the empty
  dimension counts as an absent one. Two argument tuples whose tenant id, case id and
  scope hold no colon and differ in one of these three fields have different keys. Two
  tuples that differ in the dimension only have different keys exactly when the first
  eight hexadecimal digits of the digests of their joined fields differ.
\<close>

theorem cache_key_distinct_fields:
  assumes "CHR '':'' \<notin> set a" "CHR '':'' \<notin> set b" "CHR '':'' \<notin> set c"
    and "CHR '':'' \<notin> set a'" "CHR '':'' \<notin> set b'" "CHR '':'' \<notin> set c'"
  shows "((a, b, c) \<noteq> (a', b', c') \<longrightarrow>
            generate_cache_key md5 a b c d \<noteq> generate_cache_key md5 a' b' c' d')
       \<and> generate_cache_key md5 a b c (Some '''') = generate_cache_key md5 a b c None
       \<and> (generate_cache_key md5 a b c d = generate_cache_key md5 a b c d' \<longleftrightarrow>
            take 8 (md5 (join '':'' ([a, b, c] @
              (case d of None \<Rightarrow> [] | Some x \<Rightarrow> if bool_str x then [x] else [])))) =
            take 8 (md5 (join '':'' ([a, b, c] @
              (case d' of None \<Rightarrow> [] | Some x \<Rightarrow> if bool_str x then [x] else [])))))"
proof (intro conjI impI)
  assume ne: "(a, b, c) \<noteq> (a', b', c')"
  show "generate_cache_key md5 a b c d \<noteq> generate_cache_key md5 a' b' c' d'"
  proof
    assume "generate_cache_key md5 a b c d = generate_cache_key md5 a' b' c' d'"
    from cache_key_fields [OF assms this] ne show False by simp
  qed
next
  show "generate_cache_key md5 a b c (Some '''') = generate_cache_key md5 a b c None"
    by (rule cache_key_empty_dimension)
next
  show "generate_cache_key md5 a b c d = generate_cache_key md5 a b c d' \<longleftrightarrow>
            take 8 (md5 (join '':'' ([a, b, c] @
              (case d of None \<Rightarrow> [] | Some x \<Rightarrow> if bool_str x then [x] else [])))) =
            take 8 (md5 (join '':'' ([a, b, c] @
              (case d' of None \<Rightarrow> [] | Some x \<Rightarrow> if bool_str x then [x] else []))))"
    by (rule cache_key_same_fields)
qed

theorem cache_key_distinct_fields_witness:
  "\<forall>md5. CHR '':'' \<notin> set ''tenant-1'' \<and> CHR '':'' \<notin> set ''case-1''
        \<and> CHR '':'' \<notin> set ''minimal'' \<and> CHR '':'' \<notin> set ''standard''
        \<and> generate_cache_key md5 ''tenant-1'' ''case-1'' ''minimal'' None
          \<noteq> generate_cache_key md5 ''tenant-1'' ''case-1'' ''standard'' (Some ''WHO'')"
proof
  fix md5 :: "string \<Rightarrow> string"
  have h: "CHR '':'' \<notin> set ''tenant-1''" "CHR '':'' \<notin> set ''case-1''"
    "CHR '':'' \<notin> set ''minimal''" "CHR '':'' \<notin> set ''standard''"
    by simp_all
  from cache_key_distinct_fields [OF h(1) h(2) h(3) h(1) h(2) h(4),
      of md5 None "Some ''WHO''"]
  have "generate_cache_key md5 ''tenant-1'' ''case-1'' ''minimal'' None
          \<noteq> generate_cache_key md5 ''tenant-1'' ''case-1'' ''standard'' (Some ''WHO'')"
    by simp
  with h show "CHR '':'' \<notin> set ''tenant-1'' \<and> CHR '':'' \<notin> set ''case-1''
        \<and> CHR '':'' \<notin> set ''minimal'' \<and> CHR '':'' \<notin> set ''standard''
        \<and> generate_cache_key md5 ''tenant-1'' ''case-1'' ''minimal'' None
          \<noteq> generate_cache_key md5 ''tenant-1'' ''case-1'' ''standard'' (Some ''WHO'')"
    by blast
qed

subsection \<open>The bounded recency cache\<close>

lemma od_keys_assign:
  "od_keys (od_assign k v d) = (if k \<in> set (od_keys d) then od_keys d else od_keys d @ [k])"
  by (induction d) (auto simp: od_keys_def)

lemma od_keys_delete: "od_keys (od_delete k d) = removeAll k (od_keys d)"
  by (induction d) (auto simp: od_keys_def od_delete_def)

lemma length_od_keys: "length (od_keys d) = length d"
  by (simp add: od_keys_def)

lemma filter_eq_distinct:
  "distinct xs \<Longrightarrow> k \<in> set xs \<Longrightarrow> filter (\<lambda>x. x = k) xs = [k]"
  by (induction xs) (auto simp: filter_empty_conv)

lemma keys_filter_ne: "map fst (filter (\<lambda>p. fst p \<noteq> k) d) = removeAll k (map fst d)"
  by (induction d) auto

lemma keys_filter_eq: "map fst (filter (\<lambda>p. fst p = k) d) = filter (\<lambda>x. x = k) (map fst d)"
  by (induction d) auto

lemma od_keys_move_to_end_raw:
  "od_keys (od_move_to_end k d) = removeAll k (od_keys d) @ filter (\<lambda>x. x = k) (od_keys d)"
  by (simp add: od_keys_def od_move_to_end_def keys_filter_ne keys_filter_eq)

lemma od_keys_move_to_end:
  "distinct (od_keys d) \<Longrightarrow> k \<in> set (od_keys d) \<Longrightarrow>
   od_keys (od_move_to_end k d) = removeAll k (od_keys d) @ [k]"
  by (simp add: od_keys_move_to_end_raw filter_eq_distinct)

lemma distinct_od_assign: "distinct (od_keys d) \<Longrightarrow> distinct (od_keys (od_assign k v d))"
  by (simp add: od_keys_assign)

lemma od_keys_assign_move:
  "distinct (od_keys d) \<Longrightarrow>
   od_keys (od_move_to_end k (od_assign k v d)) = removeAll k (od_keys d) @ [k]"
  by (simp add: od_keys_move_to_end od_keys_assign)

lemma map_of_od_assign: "map_of (od_assign k v d) = (map_of d)(k \<mapsto> v)"
  by (induction d) (auto simp: fun_eq_iff)

lemma map_of_filter_ne:
  "map_of (filter (\<lambda>p. fst p \<noteq> k) d) x = (if x \<noteq> k then map_of d x else None)"
  by (induction d) auto

lemma map_of_filter_eq:
  "map_of (filter (\<lambda>p. fst p = k) d) x = (if x = k then map_of d x else None)"
  by (induction d) auto

lemma map_of_od_delete: "map_of (od_delete k d) = (map_of d)(k := None)"
  by (simp add: od_delete_def fun_eq_iff map_of_filter_ne)

lemma map_of_od_move_to_end: "map_of (od_move_to_end k d) = map_of d"
proof
  fix x
  show "map_of (od_move_to_end k d) x = map_of d x"
    unfolding od_move_to_end_def map_of_append map_add_def
    by (simp add: map_of_filter_ne map_of_filter_eq split: option.splits)
qed

lemma od_first_key_keys:
  "od_first_key d = (case od_keys d of [] \<Rightarrow> None | k # _ \<Rightarrow> Some k)"
  by (cases d) (auto simp: od_first_key_def od_keys_def)

lemma map_of_Some_keys: "map_of d k = Some e \<Longrightarrow> k \<in> set (od_keys d)"
  by (auto simp: od_keys_def dest: map_of_SomeD intro: rev_image_eqI)

lemma removeAll_hd_distinct: "distinct (x # xs) \<Longrightarrow> removeAll x (x # xs) = xs"
  by simp

lemma lru_set_keys:
  assumes "distinct (lru_keys c)"
  shows "lru_keys (lru_set k v ttl st now c) =
     (let ks = removeAll k (lru_keys c) @ [k]
      in if int (length ks) > max_size c then tl ks else ks)"
proof -
  let ?e = "\<lparr>key = k, cached_value = v, created_at = now,
             expires_at = now + timedelta_seconds
               (case ttl of None \<Rightarrow> default_ttl c | Some t \<Rightarrow> if t = 0 then default_ttl c else t),
             hit_count = 0, last_accessed = None, case_status = st\<rparr>"
  let ?d = "od_move_to_end k (od_assign k ?e (cache c))"
  have ks: "od_keys ?d = removeAll k (lru_keys c) @ [k]"
    using assms by (simp add: od_keys_assign_move lru_keys_def)
  have dist: "distinct (od_keys ?d)"
    using assms by (simp add: ks distinct_removeAll)
  have len: "length ?d = length (removeAll k (lru_keys c) @ [k])"
    using ks length_od_keys [of ?d] by simp
  have first: "od_first_key ?d = Some (hd (removeAll k (lru_keys c) @ [k]))"
    by (simp add: od_first_key_keys ks split: list.splits)
  have del: "od_keys (od_delete (hd (removeAll k (lru_keys c) @ [k])) ?d)
               = tl (removeAll k (lru_keys c) @ [k])"
    using dist unfolding od_keys_delete ks
    by (cases "removeAll k (lru_keys c) @ [k]") auto
  show ?thesis
    unfolding lru_set_def Let_def
    using first del len ks by (simp add: lru_keys_def)
qed


lemma lru_set_fields [simp]:
  "max_size (lru_set k v ttl st now c) = max_size c"
  "default_ttl (lru_set k v ttl st now c) = default_ttl c"
  by (simp_all add: lru_set_def Let_def split: option.splits)

lemma lru_set_distinct:
  assumes "distinct (lru_keys c)"
  shows "distinct (lru_keys (lru_set k v ttl st now c))"
proof -
  have h: "distinct (removeAll k (lru_keys c) @ [k])"
    using assms by (simp add: distinct_removeAll)
  show ?thesis
    using distinct_tl [OF h] h by (simp add: lru_set_keys [OF assms] Let_def)
qed

lemma lru_set_all_append:
  "lru_set_all (xs @ ys) c = lru_set_all ys (lru_set_all xs c)"
  by (induction xs arbitrary: c) auto

lemma lru_set_all_no_overflow:
  "distinct (lru_keys c) \<Longrightarrow> distinct (map fst ops) \<Longrightarrow>
   set (map fst ops) \<inter> set (lru_keys c) = {} \<Longrightarrow>
   int (length (lru_keys c) + length ops) \<le> max_size c \<Longrightarrow>
   lru_keys (lru_set_all ops c) = lru_keys c @ map fst ops
   \<and> max_size (lru_set_all ops c) = max_size c"
proof (induction ops arbitrary: c)
  case Nil
  then show ?case by simp
next
  case (Cons op ops)
  obtain k v ttl st now where op: "op = (k, v, ttl, st, now)" by (cases op) auto
  let ?c = "lru_set k v ttl st now c"
  from Cons.prems have knew: "k \<notin> set (lru_keys c)" by (auto simp: op)
  have ks: "lru_keys ?c = lru_keys c @ [k]"
    using Cons.prems knew by (simp add: lru_set_keys Let_def)
  have "lru_keys (lru_set_all ops ?c) = lru_keys ?c @ map fst ops
        \<and> max_size (lru_set_all ops ?c) = max_size ?c"
  proof (rule Cons.IH)
    show "distinct (lru_keys ?c)" using Cons.prems(1) by (rule lru_set_distinct)
    show "distinct (map fst ops)" using Cons.prems(2) by simp
    show "set (map fst ops) \<inter> set (lru_keys ?c) = {}"
      using Cons.prems(2,3) by (auto simp: ks op)
    show "int (length (lru_keys ?c) + length ops) \<le> max_size ?c"
      using Cons.prems(4) by (simp add: ks)
  qed
  then show ?case by (simp add: op ks)
qed

lemma lru_overflow_evicts_first:
  fixes C :: nat
  assumes d: "distinct (map fst ops)" and len: "length ops = C + 1"
  shows "lru_keys (lru_set_all ops (new_lru_cache (int C) ttl0)) = tl (map fst ops)"
proof -
  from len have "ops \<noteq> []" by auto
  then obtain ops' op where ops: "ops = ops' @ [op]" by (metis rev_exhaust)
  obtain k v ttl st now where op: "op = (k, v, ttl, st, now)" by (cases op) auto
  let ?c0 = "new_lru_cache (int C) ttl0 :: 'a lru_cache"
  have c0: "lru_keys ?c0 = []" "max_size ?c0 = int C"
    by (simp_all add: new_lru_cache_def lru_keys_def od_keys_def)
  have len': "length ops' = C" using len ops by simp
  have pre: "lru_keys (lru_set_all ops' ?c0) = lru_keys ?c0 @ map fst ops'
             \<and> max_size (lru_set_all ops' ?c0) = max_size ?c0"
    by (rule lru_set_all_no_overflow) (use d ops len' in \<open>simp_all add: c0\<close>)
  then have keys': "lru_keys (lru_set_all ops' ?c0) = map fst ops'"
    and ms: "max_size (lru_set_all ops' ?c0) = int C"
    by (simp_all add: c0)
  have knew: "k \<notin> set (map fst ops')" using d by (simp add: ops op)
  have "lru_keys (lru_set_all ops ?c0)
          = lru_keys (lru_set k v ttl st now (lru_set_all ops' ?c0))"
    by (simp add: ops op lru_set_all_append)
  also have "\<dots> = tl (map fst ops' @ [k])"
    using d knew by (subst lru_set_keys) (simp_all add: keys' ms Let_def len' ops)
  also have "\<dots> = tl (map fst ops)" by (simp add: ops op)
  finally show ?thesis .
qed

lemma lru_get_hit:
  assumes "distinct (lru_keys c)" and "map_of (cache c) k = Some e" and "\<not> is_expired e now"
  shows "fst (lru_get k now c) = Some (cached_value e)"
    and "lru_keys (snd (lru_get k now c)) = removeAll k (lru_keys c) @ [k]"
    and "map_of (cache (snd (lru_get k now c))) = (map_of (cache c))(k \<mapsto> increment_hits e now)"
    and "max_size (snd (lru_get k now c)) = max_size c"
    and "default_ttl (snd (lru_get k now c)) = default_ttl c"
proof -
  have kin: "k \<in> set (od_keys (cache c))" using assms(2) by (rule map_of_Some_keys)
  have mv: "od_keys (od_move_to_end k (cache c)) = removeAll k (lru_keys c) @ [k]"
    using assms(1) kin by (simp add: od_keys_move_to_end lru_keys_def)
  show "fst (lru_get k now c) = Some (cached_value e)"
    using assms by (simp add: lru_get_def Let_def increment_hits_def)
  show "lru_keys (snd (lru_get k now c)) = removeAll k (lru_keys c) @ [k]"
    using assms by (simp add: lru_get_def Let_def lru_keys_def od_keys_assign mv [unfolded lru_keys_def])
  show "map_of (cache (snd (lru_get k now c))) = (map_of (cache c))(k \<mapsto> increment_hits e now)"
    using assms by (simp add: lru_get_def Let_def map_of_od_assign map_of_od_move_to_end)
  show "max_size (snd (lru_get k now c)) = max_size c"
    using assms by (simp add: lru_get_def Let_def)
  show "default_ttl (snd (lru_get k now c)) = default_ttl c"
    using assms by (simp add: lru_get_def Let_def)
qed

lemma lru_get_expired:
  assumes "map_of (cache c) k = Some e" and "is_expired e now"
  shows "lru_get k now c = (None, c\<lparr>cache := od_delete k (cache c)\<rparr>)"
  using assms by (simp add: lru_get_def)

lemma length_od_delete:
  assumes "distinct (od_keys d)" and "k \<in> set (od_keys d)"
  shows "length (od_delete k d) = length d - 1"
proof -
  have "length (od_delete k d) = length (od_keys (od_delete k d))" by (simp add: length_od_keys)
  also have "\<dots> = length (remove1 k (od_keys d))"
    using assms(1) by (simp add: od_keys_delete distinct_remove1_removeAll)
  also have "\<dots> = length d - 1" using assms(2) by (simp add: length_remove1 length_od_keys)
  finally show ?thesis .
qed

lemma length_removeAll_distinct:
  "distinct xs \<Longrightarrow> length (removeAll k xs) = (if k \<in> set xs then length xs - 1 else length xs)"
  by (simp add: distinct_remove1_removeAll [symmetric] length_remove1)

lemma lru_set_size:
  assumes d: "distinct (lru_keys c)" and cap: "int (length (lru_keys c)) \<le> max_size c"
  shows "int (length (lru_keys (lru_set k v ttl st now c))) \<le> max_size c
       \<and> length (lru_keys c) \<le> length (lru_keys (lru_set k v ttl st now c))
       \<and> length (lru_keys (lru_set k v ttl st now c)) \<le> length (lru_keys c) + 1"
proof (cases "k \<in> set (lru_keys c)")
  case True
  then have pos: "length (lru_keys c) > 0" by (cases "lru_keys c") auto
  have "length (removeAll k (lru_keys c) @ [k]) = length (lru_keys c)"
    using d True pos by (simp add: length_removeAll_distinct)
  then show ?thesis using cap by (simp add: lru_set_keys [OF d] Let_def)
next
  case False
  then have "removeAll k (lru_keys c) = lru_keys c" by simp
  then show ?thesis using cap by (simp add: lru_set_keys [OF d] Let_def)
qed

lemma lru_read_then_overflow:
  assumes d: "distinct (lru_keys c)" and full: "int (length (lru_keys c)) = max_size c"
    and hit: "map_of (cache c) k = Some e" "\<not> is_expired e now"
    and new: "k' \<notin> set (lru_keys c)"
  shows "lru_keys (lru_set k' v ttl st now' (snd (lru_get k now c)))
           = tl (removeAll k (lru_keys c) @ [k, k'])"
proof -
  let ?c = "snd (lru_get k now c)"
  have ks: "lru_keys ?c = removeAll k (lru_keys c) @ [k]"
    and ms: "max_size ?c = max_size c"
    using lru_get_hit [OF d hit] by simp_all
  have kin: "k \<in> set (lru_keys c)"
    using hit(1) by (simp add: lru_keys_def map_of_Some_keys)
  then have pos: "length (lru_keys c) > 0" by (cases "lru_keys c") auto
  have ne: "k' \<noteq> k" using new kin by auto
  have d': "distinct (lru_keys ?c)" using d by (simp add: ks distinct_removeAll)
  have rm: "removeAll k' (lru_keys ?c) = lru_keys ?c" using new ne by (simp add: ks)
  have len: "length (lru_keys ?c) = length (lru_keys c)"
    using d kin pos by (simp add: ks length_removeAll_distinct)
  show ?thesis
    using full by (simp add: lru_set_keys [OF d'] rm Let_def ms len) (simp add: ks)
qed

text \<open>
  Claim C4. The in-memory tier keeps a recency order that both \<^verbatim>\<open>set\<close> and a successful
  \<^verbatim>\<open>get\<close> update. (1) After \<open>C + 1\<close> inserts of distinct keys into an empty tier of
  capacity \<open>C\<close>, with no read in between, exactly the first key is gone. (2) An insert
  moves its key to the most recently used end and then, if the size exceeds the capacity,
  evicts the one entry at the least recently used end; so it keeps the size within the
  capacity and evicts at most one entry. (3) In a full tier, a
  read of \<open>k\<close> followed by the insert of a new key evicts the head of the order in which
  \<open>k\<close> has moved to the end: the least recently touched key. (4) Capacity 3: insert A, B,
  C, read A, insert D; then B is evicted and the order is C, A, D.
\<close>

theorem lru_recency_order:
  fixes C :: nat
  shows
   "(distinct (map fst ops) \<and> length ops = C + 1 \<longrightarrow>
       lru_keys (lru_set_all ops (new_lru_cache (int C) ttl0)) = tl (map fst ops))
  \<and> (distinct (lru_keys c) \<longrightarrow>
       lru_keys (lru_set k v ttl st now c) =
         (let ks = removeAll k (lru_keys c) @ [k]
          in if int (length ks) > max_size c then tl ks else ks))
  \<and> (distinct (lru_keys c) \<and> int (length (lru_keys c)) \<le> max_size c \<longrightarrow>
       int (length (lru_keys (lru_set k v ttl st now c))) \<le> max_size c
       \<and> length (lru_keys c) \<le> length (lru_keys (lru_set k v ttl st now c))
       \<and> length (lru_keys (lru_set k v ttl st now c)) \<le> length (lru_keys c) + 1)
  \<and> (distinct (lru_keys c) \<and> int (length (lru_keys c)) = max_size c
       \<and> map_of (cache c) k = Some e \<and> expires_at e > now \<and> k' \<notin> set (lru_keys c) \<longrightarrow>
       lru_keys (lru_set k' v ttl st now' (snd (lru_get k now c)))
         = tl (removeAll k (lru_keys c) @ [k, k']))
  \<and> lru_keys (lru_set ''D'' v4 None ''active'' 4
       (snd (lru_get ''A'' 3
         (lru_set_all [(''A'', v1, None, ''active'', 0), (''B'', v2, None, ''active'', 1),
                       (''C'', v3, None, ''active'', 2)] (new_lru_cache 3 600)))))
       = [''C'', ''A'', ''D'']"
proof (intro conjI impI)
  assume "distinct (map fst ops) \<and> length ops = C + 1"
  then show "lru_keys (lru_set_all ops (new_lru_cache (int C) ttl0)) = tl (map fst ops)"
    by (simp add: lru_overflow_evicts_first)
next
  assume "distinct (lru_keys c)"
  then show "lru_keys (lru_set k v ttl st now c) =
         (let ks = removeAll k (lru_keys c) @ [k]
          in if int (length ks) > max_size c then tl ks else ks)"
    by (rule lru_set_keys)
next
  assume h: "distinct (lru_keys c) \<and> int (length (lru_keys c)) \<le> max_size c"
  from lru_set_size [of c k v ttl st now] h
  show "int (length (lru_keys (lru_set k v ttl st now c))) \<le> max_size c"
    and "length (lru_keys c) \<le> length (lru_keys (lru_set k v ttl st now c))"
    and "length (lru_keys (lru_set k v ttl st now c)) \<le> length (lru_keys c) + 1"
    by simp_all
next
  assume h: "distinct (lru_keys c) \<and> int (length (lru_keys c)) = max_size c
       \<and> map_of (cache c) k = Some e \<and> expires_at e > now \<and> k' \<notin> set (lru_keys c)"
  then have "\<not> is_expired e now" by (simp add: is_expired_def)
  with h show "lru_keys (lru_set k' v ttl st now' (snd (lru_get k now c)))
         = tl (removeAll k (lru_keys c) @ [k, k'])"
    by (simp add: lru_read_then_overflow)
next
  show "lru_keys (lru_set ''D'' v4 None ''active'' 4
       (snd (lru_get ''A'' 3
         (lru_set_all [(''A'', v1, None, ''active'', 0), (''B'', v2, None, ''active'', 1),
                       (''C'', v3, None, ''active'', 2)] (new_lru_cache 3 600)))))
       = [''C'', ''A'', ''D'']"
    by (simp add: new_lru_cache_def lru_set_def lru_get_def Let_def od_first_key_def
        od_delete_def od_move_to_end_def is_expired_def increment_hits_def
        timedelta_seconds_def lru_keys_def od_keys_def)
qed

theorem lru_recency_order_witness:
  "lru_keys (lru_set_all [(''k1'', ''v1'', None, ''active'', 0), (''k2'', ''v2'', Some 60, ''active'', 1),
                          (''k3'', ''v3'', None, ''closed'', 2)] (new_lru_cache 2 600))
     = [''k2'', ''k3'']
   \<and> lru_keys (lru_set ''C'' ''vc'' None ''active'' 20
        (snd (lru_get ''A'' 10
          \<lparr>max_size = 2, default_ttl = 600,
           cache = [(''A'', \<lparr>key = ''A'', cached_value = ''va'', created_at = 0,
                             expires_at = 600000000, hit_count = 0, last_accessed = None,
                             case_status = ''active''\<rparr>),
                    (''B'', \<lparr>key = ''B'', cached_value = ''vb'', created_at = 1,
                             expires_at = 600000001, hit_count = 0, last_accessed = None,
                             case_status = ''active''\<rparr>)]\<rparr>)))
     = [''A'', ''C'']"
proof -
  let ?ops = "[(''k1'', ''v1'', None, ''active'', 0), (''k2'', ''v2'', Some 60, ''active'', 1),
               (''k3'', ''v3'', None, ''closed'', 2)] :: (string \<times> string \<times> int option \<times> string \<times> datetime) list"
  let ?eA = "\<lparr>key = ''A'', cached_value = ''va'', created_at = 0,
              expires_at = 600000000, hit_count = 0, last_accessed = None,
              case_status = ''active''\<rparr>"
  let ?c0 = "\<lparr>max_size = 2, default_ttl = 600,
           cache = [(''A'', ?eA),
                    (''B'', \<lparr>key = ''B'', cached_value = ''vb'', created_at = 1,
                             expires_at = 600000001, hit_count = 0, last_accessed = None,
                             case_status = ''active''\<rparr>)]\<rparr>"
  have h1: "distinct (map fst ?ops) \<and> length ?ops = 2 + 1" by simp
  have h3: "distinct (lru_keys ?c0) \<and> int (length (lru_keys ?c0)) = max_size ?c0
       \<and> map_of (cache ?c0) ''A'' = Some ?eA \<and> expires_at ?eA > 10 \<and> ''C'' \<notin> set (lru_keys ?c0)"
    by (simp add: lru_keys_def od_keys_def)
  note inst = lru_recency_order [where ops = ?ops and C = 2 and ?ttl0.0 = 600 and c = ?c0
      and k = "''A''" and e = ?eA and now = 10 and k' = "''C''" and v = "''vc''" and ttl = None
      and st = "''active''" and now' = 20 and ?v1.0 = "''a''" and ?v2.0 = "''b''"
      and ?v3.0 = "''c''" and ?v4.0 = "''d''"]
  from inst h1 have a: "lru_keys (lru_set_all ?ops (new_lru_cache 2 600)) = tl (map fst ?ops)"
    by simp
  from inst h3 have b: "lru_keys (lru_set ''C'' ''vc'' None ''active'' 20 (snd (lru_get ''A'' 10 ?c0)))
         = tl (removeAll ''A'' (lru_keys ?c0) @ [''A'', ''C''])"
    by blast
  from a b show ?thesis by (simp add: lru_keys_def od_keys_def)
qed

lemma lru_get_miss: "map_of (cache c) k = None \<Longrightarrow> lru_get k now c = (None, c)"
  by (simp add: lru_get_def)

lemma lru_get_stats_size: "stats_size (lru_get_stats c t) = int (length (lru_keys c))"
  by (simp add: lru_get_stats_def lru_keys_def od_keys_def)

text \<open>
  Claim C5. (1) A read of a key whose entry has expired (\<^verbatim>\<open>now >= expires_at\<close>) returns
  nothing and removes that entry and no other, so that the size the next statistics
  report is one smaller. (2) A read of a key whose entry has not expired returns the
  stored value, moves the key to the most recently used end and adds one to the hit
  counter of the entry (and sets its last access time), all other entries unchanged.
  (3) A read of an absent key returns nothing and changes nothing.
\<close>

theorem lru_get_expiry_and_hit:
  "(distinct (lru_keys c) \<and> map_of (cache c) k = Some e \<and> expires_at e \<le> now \<longrightarrow>
      fst (lru_get k now c) = None
    \<and> lru_keys (snd (lru_get k now c)) = removeAll k (lru_keys c)
    \<and> map_of (cache (snd (lru_get k now c))) = (map_of (cache c))(k := None)
    \<and> stats_size (lru_get_stats (snd (lru_get k now c)) later)
        = stats_size (lru_get_stats c later) - 1)
 \<and> (distinct (lru_keys c) \<and> map_of (cache c) k = Some e \<and> now < expires_at e \<longrightarrow>
      fst (lru_get k now c) = Some (cached_value e)
    \<and> lru_keys (snd (lru_get k now c)) = removeAll k (lru_keys c) @ [k]
    \<and> map_of (cache (snd (lru_get k now c)))
        = (map_of (cache c))(k \<mapsto> e\<lparr>hit_count := hit_count e + 1, last_accessed := Some now\<rparr>))
 \<and> (map_of (cache c) k = None \<longrightarrow> lru_get k now c = (None, c))"
proof (intro conjI impI)
  assume h: "distinct (lru_keys c) \<and> map_of (cache c) k = Some e \<and> expires_at e \<le> now"
  then have ex: "is_expired e now" by (simp add: is_expired_def)
  from h have kin: "k \<in> set (od_keys (cache c))" by (simp add: map_of_Some_keys)
  then have pos: "length (cache c) > 0" by (cases "cache c") (auto simp: od_keys_def)
  have g: "lru_get k now c = (None, c\<lparr>cache := od_delete k (cache c)\<rparr>)"
    using h ex by (simp add: lru_get_expired)
  show "fst (lru_get k now c) = None" by (simp add: g)
  show "lru_keys (snd (lru_get k now c)) = removeAll k (lru_keys c)"
    by (simp add: g lru_keys_def od_keys_delete)
  show "map_of (cache (snd (lru_get k now c))) = (map_of (cache c))(k := None)"
    by (simp add: g map_of_od_delete)
  have "length (od_delete k (cache c)) = length (cache c) - 1"
    using h kin by (simp add: length_od_delete lru_keys_def)
  with pos have "int (length (od_delete k (cache c))) = int (length (cache c)) - 1"
    by linarith
  then show "stats_size (lru_get_stats (snd (lru_get k now c)) later)
        = stats_size (lru_get_stats c later) - 1"
    by (simp add: g lru_get_stats_def)
next
  assume h: "distinct (lru_keys c) \<and> map_of (cache c) k = Some e \<and> now < expires_at e"
  then have ne: "\<not> is_expired e now" by (simp add: is_expired_def)
  from h have d: "distinct (lru_keys c)" and m: "map_of (cache c) k = Some e" by simp_all
  show "fst (lru_get k now c) = Some (cached_value e)"
    using lru_get_hit(1) [OF d m ne] .
  show "lru_keys (snd (lru_get k now c)) = removeAll k (lru_keys c) @ [k]"
    using lru_get_hit(2) [OF d m ne] .
  show "map_of (cache (snd (lru_get k now c)))
        = (map_of (cache c))(k \<mapsto> e\<lparr>hit_count := hit_count e + 1, last_accessed := Some now\<rparr>)"
    using lru_get_hit(3) [OF d m ne] by (simp add: increment_hits_def)
next
  assume "map_of (cache c) k = None"
  then show "lru_get k now c = (None, c)" by (rule lru_get_miss)
qed

theorem lru_get_expiry_and_hit_witness:
  "fst (lru_get ''A'' 600000000
      \<lparr>max_size = 2, default_ttl = 600,
       cache = [(''A'', \<lparr>key = ''A'', cached_value = ''va'', created_at = 0,
                         expires_at = 600000000, hit_count = 0, last_accessed = None,
                         case_status = ''active''\<rparr>),
                (''B'', \<lparr>key = ''B'', cached_value = ''vb'', created_at = 1,
                         expires_at = 600000001, hit_count = 0, last_accessed = None,
                         case_status = ''active''\<rparr>)]\<rparr>) = None
 \<and> lru_keys (snd (lru_get ''A'' 600000000
      \<lparr>max_size = 2, default_ttl = 600,
       cache = [(''A'', \<lparr>key = ''A'', cached_value = ''va'', created_at = 0,
                         expires_at = 600000000, hit_count = 0, last_accessed = None,
                         case_status = ''active''\<rparr>),
                (''B'', \<lparr>key = ''B'', cached_value = ''vb'', created_at = 1,
                         expires_at = 600000001, hit_count = 0, last_accessed = None,
                         case_status = ''active''\<rparr>)]\<rparr>)) = [''B'']
 \<and> fst (lru_get ''A'' 599999999
      \<lparr>max_size = 2, default_ttl = 600,
       cache = [(''A'', \<lparr>key = ''A'', cached_value = ''va'', created_at = 0,
                         expires_at = 600000000, hit_count = 0, last_accessed = None,
                         case_status = ''active''\<rparr>),
                (''B'', \<lparr>key = ''B'', cached_value = ''vb'', created_at = 1,
                         expires_at = 600000001, hit_count = 0, last_accessed = None,
                         case_status = ''active''\<rparr>)]\<rparr>) = Some ''va''
 \<and> lru_keys (snd (lru_get ''A'' 599999999
      \<lparr>max_size = 2, default_ttl = 600,
       cache = [(''A'', \<lparr>key = ''A'', cached_value = ''va'', created_at = 0,
                         expires_at = 600000000, hit_count = 0, last_accessed = None,
                         case_status = ''active''\<rparr>),
                (''B'', \<lparr>key = ''B'', cached_value = ''vb'', created_at = 1,
                         expires_at = 600000001, hit_count = 0, last_accessed = None,
                         case_status = ''active''\<rparr>)]\<rparr>)) = [''B'', ''A'']"
proof -
  let ?eA = "\<lparr>key = ''A'', cached_value = ''va'', created_at = 0,
              expires_at = 600000000, hit_count = 0, last_accessed = None,
              case_status = ''active''\<rparr>"
  let ?c0 = "\<lparr>max_size = 2, default_ttl = 600,
           cache = [(''A'', ?eA),
                    (''B'', \<lparr>key = ''B'', cached_value = ''vb'', created_at = 1,
                             expires_at = 600000001, hit_count = 0, last_accessed = None,
                             case_status = ''active''\<rparr>)]\<rparr>"
  have h1: "distinct (lru_keys ?c0) \<and> map_of (cache ?c0) ''A'' = Some ?eA
            \<and> expires_at ?eA \<le> 600000000"
    by (simp add: lru_keys_def od_keys_def)
  have h2: "distinct (lru_keys ?c0) \<and> map_of (cache ?c0) ''A'' = Some ?eA
            \<and> 599999999 < expires_at ?eA"
    by (simp add: lru_keys_def od_keys_def)
  from lru_get_expiry_and_hit [where c = ?c0 and k = "''A''" and e = ?eA and now = 600000000
      and later = 0] h1
  have a: "fst (lru_get ''A'' 600000000 ?c0) = None"
    and b: "lru_keys (snd (lru_get ''A'' 600000000 ?c0)) = removeAll ''A'' (lru_keys ?c0)"
    by blast+
  from lru_get_expiry_and_hit [where c = ?c0 and k = "''A''" and e = ?eA and now = 599999999
      and later = 0] h2
  have c: "fst (lru_get ''A'' 599999999 ?c0) = Some (cached_value ?eA)"
    and d: "lru_keys (snd (lru_get ''A'' 599999999 ?c0)) = removeAll ''A'' (lru_keys ?c0) @ [''A'']"
    by blast+
  from a b c d show ?thesis by (simp add: lru_keys_def od_keys_def)
qed

subsection \<open>The tiered cache manager\<close>

lemma memory_tier_SomeD:
  "memory_tier m = Some mc \<Longrightarrow> enable_memory_cache m \<and> memory_cache m = Some mc"
  by (simp add: memory_tier_def split: if_splits)

lemma memory_tier_update [simp]:
  "memory_tier (m\<lparr>memory_cache := x\<rparr>) = (if enable_memory_cache m then x else None)"
  "memory_tier (m\<lparr>stats := s\<rparr>) = memory_tier m"
  by (simp_all add: memory_tier_def)

lemma od_delete_absent: "k \<notin> set (od_keys d) \<Longrightarrow> od_delete k d = d"
  by (induction d) (auto simp: od_delete_def od_keys_def)

lemma delete_key_no_memory: "memory_tier m = None \<Longrightarrow> delete_key k (n, m) = (n, m)"
  by (simp add: delete_key_def delete_from_redis_def delete_from_database_def)

lemma delete_key_memory:
  assumes "memory_tier m = Some mc"
  shows "delete_key k (n, m) =
     (n + of_bool (k \<in> set (lru_keys mc)),
      m\<lparr>memory_cache := Some (mc\<lparr>cache := od_delete k (cache mc)\<rparr>)\<rparr>)"
proof (cases "k \<in> set (lru_keys mc)")
  case True
  then show ?thesis
    using assms
    by (simp add: delete_key_def delete_from_redis_def delete_from_database_def
        lru_delete_def od_contains_def lru_keys_def)
next
  case False
  then have "od_delete k (cache mc) = cache mc"
    by (simp add: od_delete_absent lru_keys_def)
  moreover have "m\<lparr>memory_cache := Some mc\<rparr> = m"
    using memory_tier_SomeD [OF assms] by simp
  ultimately show ?thesis
    using assms False
    by (simp add: delete_key_def delete_from_redis_def delete_from_database_def
        lru_delete_def od_contains_def lru_keys_def)
qed

lemma scope_keys_distinct:
  "generate_cache_key md5 t c ''minimal'' d \<noteq> generate_cache_key md5 t c ''standard'' d"
  "generate_cache_key md5 t c ''minimal'' d \<noteq> generate_cache_key md5 t c ''comprehensive'' d"
  "generate_cache_key md5 t c ''standard'' d \<noteq> generate_cache_key md5 t c ''comprehensive'' d"
  by (simp_all add: generate_cache_key_unfold)

lemma cache_delete_all_no_memory:
  "memory_tier m = None \<Longrightarrow> cache_delete md5 t c None d m = (0, m)"
  by (simp add: cache_delete_def delete_key_no_memory)

lemma cache_delete_all_memory:
  assumes "memory_tier m = Some mc"
  shows "cache_delete md5 t c None d m =
    (let k1 = generate_cache_key md5 t c ''minimal'' d;
         k2 = generate_cache_key md5 t c ''standard'' d;
         k3 = generate_cache_key md5 t c ''comprehensive'' d;
         n = of_bool (k1 \<in> set (lru_keys mc)) + of_bool (k2 \<in> set (lru_keys mc))
             + of_bool (k3 \<in> set (lru_keys mc))
     in (n, m\<lparr>memory_cache := Some (mc\<lparr>cache := od_delete k3 (od_delete k2 (od_delete k1 (cache mc)))\<rparr>),
              stats := (stats m)\<lparr>total_deletes := total_deletes (stats m) + n\<rparr>\<rparr>))"
proof -
  let ?k1 = "generate_cache_key md5 t c ''minimal'' d"
  let ?k2 = "generate_cache_key md5 t c ''standard'' d"
  let ?k3 = "generate_cache_key md5 t c ''comprehensive'' d"
  have en: "enable_memory_cache m" using memory_tier_SomeD [OF assms] by simp
  let ?mc1 = "mc\<lparr>cache := od_delete ?k1 (cache mc)\<rparr>"
  let ?m1 = "m\<lparr>memory_cache := Some ?mc1\<rparr>"
  let ?mc2 = "?mc1\<lparr>cache := od_delete ?k2 (cache ?mc1)\<rparr>"
  let ?m2 = "?m1\<lparr>memory_cache := Some ?mc2\<rparr>"
  let ?n1 = "of_bool (?k1 \<in> set (lru_keys mc)) :: int"
  let ?n2 = "?n1 + of_bool (?k2 \<in> set (lru_keys mc))"
  let ?n3 = "?n2 + of_bool (?k3 \<in> set (lru_keys mc))"
  have s1: "delete_key ?k1 (0, m) = (?n1, ?m1)"
    by (simp add: delete_key_memory [OF assms])
  have t1: "memory_tier ?m1 = Some ?mc1" using en by simp
  have in2: "?k2 \<in> set (lru_keys ?mc1) \<longleftrightarrow> ?k2 \<in> set (lru_keys mc)"
    using scope_keys_distinct(1) [of md5 t c d] by (auto simp: lru_keys_def od_keys_delete)
  have s2: "delete_key ?k2 (?n1, ?m1) = (?n2, ?m2)"
    using delete_key_memory [OF t1, of ?k2 ?n1] in2 by simp
  have t2: "memory_tier ?m2 = Some ?mc2" using en by simp
  have in3: "?k3 \<in> set (lru_keys ?mc2) \<longleftrightarrow> ?k3 \<in> set (lru_keys mc)"
    using scope_keys_distinct(2,3) [of md5 t c d] by (auto simp: lru_keys_def od_keys_delete)
  have s3: "delete_key ?k3 (?n2, ?m2) =
     (?n3, ?m2\<lparr>memory_cache := Some (?mc2\<lparr>cache := od_delete ?k3 (cache ?mc2)\<rparr>)\<rparr>)"
    using delete_key_memory [OF t2, of ?k3 ?n2] in3 by simp
  have fold3: "foldl (\<lambda>acc scope_name. delete_key (generate_cache_key md5 t c scope_name d) acc)
          (0, m) [''minimal'', ''standard'', ''comprehensive'']
        = (?n3, ?m2\<lparr>memory_cache := Some (?mc2\<lparr>cache := od_delete ?k3 (cache ?mc2)\<rparr>)\<rparr>)"
    by (simp only: foldl.simps s1 s2 s3)
  show ?thesis
    unfolding cache_delete_def fold3 by (simp add: Let_def)
qed

lemma cache_get_absent:
  assumes "case memory_tier m of None \<Rightarrow> True
           | Some mc \<Rightarrow> map_of (cache mc) (generate_cache_key md5 t c s d) = None"
  shows "fst (cache_get md5 t c s d now m) = None"
proof (cases "memory_tier m")
  case None
  then show ?thesis
    by (simp add: cache_get_def Let_def get_from_redis_def get_from_database_def)
next
  case (Some mc)
  with assms have "lru_get (generate_cache_key md5 t c s d) now mc = (None, mc)"
    by (simp add: lru_get_miss)
  with Some show ?thesis
    by (simp add: cache_get_def Let_def get_from_redis_def get_from_database_def)
qed

lemma cache_get_after_delete_all:
  assumes "s \<in> {''minimal'', ''standard'', ''comprehensive''}"
  shows "fst (cache_get md5 t c s d now (snd (cache_delete md5 t c None d m))) = None"
proof (cases "memory_tier m")
  case None
  then have "snd (cache_delete md5 t c None d m) = m"
    by (simp add: cache_delete_all_no_memory)
  with None show ?thesis by (simp add: cache_get_absent)
next
  case (Some mc)
  have en: "enable_memory_cache m" using memory_tier_SomeD [OF Some] by simp
  let ?k1 = "generate_cache_key md5 t c ''minimal'' d"
  let ?k2 = "generate_cache_key md5 t c ''standard'' d"
  let ?k3 = "generate_cache_key md5 t c ''comprehensive'' d"
  let ?d = "od_delete ?k3 (od_delete ?k2 (od_delete ?k1 (cache mc)))"
  have tier: "memory_tier (snd (cache_delete md5 t c None d m)) = Some (mc\<lparr>cache := ?d\<rparr>)"
    using en by (simp add: cache_delete_all_memory [OF Some] Let_def)
  have "map_of ?d (generate_cache_key md5 t c s d) = None"
    using assms by (auto simp: map_of_od_delete)
  then show ?thesis
    by (intro cache_get_absent) (simp add: tier)
qed

lemma cache_set_memory:
  assumes "memory_tier m = Some mc"
  shows "memory_tier (cache_set md5 t c s v st d now m)
           = Some (lru_set (generate_cache_key md5 t c s d) v (Some MEMORY_TTL) st now mc)"
  using assms memory_tier_SomeD [OF assms]
  by (simp add: cache_set_def Let_def set_in_redis_def set_in_database_def)

lemma lru_set_keeps_recent:
  assumes d: "distinct (lru_keys c)" and suf: "lru_keys c = p @ s"
    and new: "k \<notin> set s" and room: "int (length s) < max_size c"
  shows "\<exists>p'. lru_keys (lru_set k v ttl st now c) = p' @ s @ [k]"
proof -
  let ?ks = "removeAll k p @ s @ [k]"
  have ks: "removeAll k (lru_keys c) @ [k] = ?ks" using new by (simp add: suf)
  show ?thesis
  proof (cases "int (length ?ks) > max_size c")
    case True
    then have "removeAll k p \<noteq> []" using room by auto
    then have "tl ?ks = tl (removeAll k p) @ s @ [k]" by simp
    then have "lru_keys (lru_set k v ttl st now c) = tl (removeAll k p) @ s @ [k]"
      using True by (simp add: lru_set_keys [OF d] ks Let_def)
    then show ?thesis by blast
  next
    case False
    then have "lru_keys (lru_set k v ttl st now c) = removeAll k p @ s @ [k]"
      by (simp add: lru_set_keys [OF d] ks Let_def)
    then show ?thesis by blast
  qed
qed

lemma three_sets_present:
  assumes d: "distinct (lru_keys c)" and cap: "3 \<le> max_size c"
    and ne: "k1 \<noteq> k2" "k1 \<noteq> k3" "k2 \<noteq> k3"
  shows "{k1, k2, k3} \<subseteq> set (lru_keys (lru_set k3 v3 l3 s3 t3 (lru_set k2 v2 l2 s2 t2
           (lru_set k1 v1 l1 s1 t1 c))))"
proof -
  let ?c1 = "lru_set k1 v1 l1 s1 t1 c"
  let ?c2 = "lru_set k2 v2 l2 s2 t2 ?c1"
  let ?c3 = "lru_set k3 v3 l3 s3 t3 ?c2"
  have d1: "distinct (lru_keys ?c1)" using d by (rule lru_set_distinct)
  have d2: "distinct (lru_keys ?c2)" using d1 by (rule lru_set_distinct)
  obtain p1 where 1: "lru_keys ?c1 = p1 @ [] @ [k1]"
    using lru_set_keeps_recent [OF d, where p = "lru_keys c" and s = "[]" and k = k1
        and v = v1 and ttl = l1 and st = s1 and now = t1] cap by auto
  obtain p2 where 2: "lru_keys ?c2 = p2 @ [k1] @ [k2]"
    using lru_set_keeps_recent [OF d1, where p = p1 and s = "[k1]" and k = k2
        and v = v2 and ttl = l2 and st = s2 and now = t2] 1 cap ne by auto
  obtain p3 where 3: "lru_keys ?c3 = p3 @ [k1, k2] @ [k3]"
    using lru_set_keeps_recent [OF d2, where p = p2 and s = "[k1, k2]" and k = k3
        and v = v3 and ttl = l3 and st = s3 and now = t3] 2 cap ne by auto
  show ?thesis by (simp add: 3)
qed

text \<open>
  Claim C9. \<^verbatim>\<open>invalidate_case\<close> is \<^verbatim>\<open>delete\<close> with the scope omitted: the same count
  and the same state. \<^verbatim>\<open>delete\<close> with the scope omitted asks every enabled tier to
  delete the key of each of the scopes minimal, standard and comprehensive: with the
  memory tier disabled nothing is removed and the count is 0 (the Redis and database
  tiers of the source remove nothing); with the memory tier enabled the three keys are
  removed from it, the count is the number of them that were present, and
  \<^verbatim>\<open>total_deletes\<close> grows by the count. After \<^verbatim>\<open>invalidate_case\<close> a \<^verbatim>\<open>get\<close> for each of
  the three scopes finds nothing; and after a \<^verbatim>\<open>set\<close> for each of the three scopes (in a
  memory tier of capacity at least 3) \<^verbatim>\<open>invalidate_case\<close> removes all three.
\<close>

theorem invalidate_case_deletes_all_scopes:
  "invalidate_case md5 t c m = cache_delete md5 t c None None m
 \<and> (memory_tier m = None \<longrightarrow> cache_delete md5 t c None d m = (0, m))
 \<and> (memory_tier m = Some mc \<longrightarrow>
      cache_delete md5 t c None d m =
        (let k1 = generate_cache_key md5 t c ''minimal'' d;
             k2 = generate_cache_key md5 t c ''standard'' d;
             k3 = generate_cache_key md5 t c ''comprehensive'' d;
             n = of_bool (k1 \<in> set (lru_keys mc)) + of_bool (k2 \<in> set (lru_keys mc))
                 + of_bool (k3 \<in> set (lru_keys mc))
         in (n, m\<lparr>memory_cache :=
                     Some (mc\<lparr>cache := od_delete k3 (od_delete k2 (od_delete k1 (cache mc)))\<rparr>),
                   stats := (stats m)\<lparr>total_deletes := total_deletes (stats m) + n\<rparr>\<rparr>)))
 \<and> fst (cache_get md5 t c ''minimal'' None now (snd (invalidate_case md5 t c m))) = None
 \<and> fst (cache_get md5 t c ''standard'' None now (snd (invalidate_case md5 t c m))) = None
 \<and> fst (cache_get md5 t c ''comprehensive'' None now (snd (invalidate_case md5 t c m))) = None
 \<and> (memory_tier m = Some mc \<and> distinct (lru_keys mc) \<and> 3 \<le> max_size mc \<longrightarrow>
      fst (invalidate_case md5 t c
            (cache_set md5 t c ''comprehensive'' v3 st3 None t3
              (cache_set md5 t c ''standard'' v2 st2 None t2
                (cache_set md5 t c ''minimal'' v1 st1 None t1 m)))) = 3)"
proof (intro conjI impI)
  show "invalidate_case md5 t c m = cache_delete md5 t c None None m"
    by (simp add: invalidate_case_def)
next
  assume "memory_tier m = None"
  then show "cache_delete md5 t c None d m = (0, m)"
    by (rule cache_delete_all_no_memory)
next
  assume "memory_tier m = Some mc"
  then show "cache_delete md5 t c None d m =
        (let k1 = generate_cache_key md5 t c ''minimal'' d;
             k2 = generate_cache_key md5 t c ''standard'' d;
             k3 = generate_cache_key md5 t c ''comprehensive'' d;
             n = of_bool (k1 \<in> set (lru_keys mc)) + of_bool (k2 \<in> set (lru_keys mc))
                 + of_bool (k3 \<in> set (lru_keys mc))
         in (n, m\<lparr>memory_cache :=
                     Some (mc\<lparr>cache := od_delete k3 (od_delete k2 (od_delete k1 (cache mc)))\<rparr>),
                   stats := (stats m)\<lparr>total_deletes := total_deletes (stats m) + n\<rparr>\<rparr>))"
    by (rule cache_delete_all_memory)
next
  show "fst (cache_get md5 t c ''minimal'' None now (snd (invalidate_case md5 t c m))) = None"
    unfolding invalidate_case_def by (rule cache_get_after_delete_all) simp
next
  show "fst (cache_get md5 t c ''standard'' None now (snd (invalidate_case md5 t c m))) = None"
    unfolding invalidate_case_def by (rule cache_get_after_delete_all) simp
next
  show "fst (cache_get md5 t c ''comprehensive'' None now (snd (invalidate_case md5 t c m))) = None"
    unfolding invalidate_case_def by (rule cache_get_after_delete_all) simp
next
  assume h: "memory_tier m = Some mc \<and> distinct (lru_keys mc) \<and> 3 \<le> max_size mc"
  let ?k1 = "generate_cache_key md5 t c ''minimal'' None"
  let ?k2 = "generate_cache_key md5 t c ''standard'' None"
  let ?k3 = "generate_cache_key md5 t c ''comprehensive'' None"
  let ?m1 = "cache_set md5 t c ''minimal'' v1 st1 None t1 m"
  let ?m2 = "cache_set md5 t c ''standard'' v2 st2 None t2 ?m1"
  let ?m3 = "cache_set md5 t c ''comprehensive'' v3 st3 None t3 ?m2"
  let ?mc3 = "lru_set ?k3 v3 (Some MEMORY_TTL) st3 t3 (lru_set ?k2 v2 (Some MEMORY_TTL) st2 t2
               (lru_set ?k1 v1 (Some MEMORY_TTL) st1 t1 mc))"
  from h have t0: "memory_tier m = Some mc" by simp
  have t3: "memory_tier ?m3 = Some ?mc3"
    by (simp add: cache_set_memory [OF cache_set_memory [OF cache_set_memory [OF t0]]])
  have "{?k1, ?k2, ?k3} \<subseteq> set (lru_keys ?mc3)"
    using h scope_keys_distinct [of md5 t c None] by (intro three_sets_present) simp_all
  then show "fst (invalidate_case md5 t c ?m3) = 3"
    by (simp add: invalidate_case_def cache_delete_all_memory [OF t3] Let_def)
qed

theorem invalidate_case_deletes_all_scopes_witness:
  "\<forall>md5. memory_tier (create_cache_manager False False True False False :: string cache_manager)
           = Some (new_lru_cache 1000 MEMORY_TTL)
   \<and> fst (invalidate_case md5 ''tenant-1'' ''case-1''
        (cache_set md5 ''tenant-1'' ''case-1'' ''comprehensive'' ''all'' ''closed'' None 3
          (cache_set md5 ''tenant-1'' ''case-1'' ''standard'' ''std'' ''active'' None 2
            (cache_set md5 ''tenant-1'' ''case-1'' ''minimal'' ''min'' ''active'' None 1
              (create_cache_manager False False True False False))))) = 3"
proof
  fix md5 :: "string \<Rightarrow> string"
  let ?m = "create_cache_manager False False True False False :: string cache_manager"
  let ?mc = "new_lru_cache 1000 MEMORY_TTL :: string lru_cache"
  have h: "memory_tier ?m = Some ?mc \<and> distinct (lru_keys ?mc) \<and> 3 \<le> max_size ?mc"
    by (simp add: create_cache_manager_def memory_tier_def new_lru_cache_def lru_keys_def
        od_keys_def)
  from invalidate_case_deletes_all_scopes [where m = ?m and mc = ?mc and ?md5.0 = md5
      and t = "''tenant-1''" and c = "''case-1''" and ?v1.0 = "''min''" and ?v2.0 = "''std''"
      and ?v3.0 = "''all''" and ?st1.0 = "''active''" and ?st2.0 = "''active''"
      and ?st3.0 = "''closed''" and ?t1.0 = 1 and ?t2.0 = 2 and ?t3.0 = 3] h
  have "fst (invalidate_case md5 ''tenant-1'' ''case-1''
        (cache_set md5 ''tenant-1'' ''case-1'' ''comprehensive'' ''all'' ''closed'' None 3
          (cache_set md5 ''tenant-1'' ''case-1'' ''standard'' ''std'' ''active'' None 2
            (cache_set md5 ''tenant-1'' ''case-1'' ''minimal'' ''min'' ''active'' None 1 ?m)))) = 3"
    by blast
  with h show "memory_tier ?m = Some ?mc \<and> fst (invalidate_case md5 ''tenant-1'' ''case-1''
        (cache_set md5 ''tenant-1'' ''case-1'' ''comprehensive'' ''all'' ''closed'' None 3
          (cache_set md5 ''tenant-1'' ''case-1'' ''standard'' ''std'' ''active'' None 2
            (cache_set md5 ''tenant-1'' ''case-1'' ''minimal'' ''min'' ''active'' None 1 ?m)))) = 3"
    by blast
qed

subsection \<open>The composite score\<close>

lemma dimension_score_None [simp]: "dimension_score n None = 0"
  by (simp add: dimension_score_def score_dimension_def)





lemma dimension_scores_loop_eq:
  "well_typed rs \<Longrightarrow>
   dimension_scores_loop acc rs = Inr (acc @ map (\<lambda>(n, c). dimension_score n c) rs)"
proof (induction rs arbitrary: acc)
  case Nil
  then show ?case by simp
next
  case (Cons r rs)
  obtain n c where r: "r = (n, c)" by (cases r)
  from Cons.prems have wt: "well_typed rs" and ok: "\<not> isl (score_dimension n c)"
    by (simp_all add: well_typed_def r)
  show ?case
  proof (cases c)
    case None
    then show ?thesis using Cons.IH [OF wt] by (simp add: r)
  next
    case (Some ctx)
    from ok obtain s where s: "score_dimension n (Some ctx) = Inr s"
      by (cases "score_dimension n (Some ctx)") (simp_all add: Some)
    then have "dimension_score n (Some ctx) = s" by (simp add: dimension_score_def)
    then show ?thesis using Cons.IH [OF wt] s by (simp add: r Some)
  qed
qed

lemma successful_count:
  "length (filter (\<lambda>result. result \<noteq> None) (map snd rs))
     = length (filter (\<lambda>(n, c). c \<noteq> None) rs)"
  by (induction rs) auto

lemma calculate_context_score_eq:
  assumes "well_typed rs"
  shows "calculate_context_score rs = Inr (spec_composite_score rs)"
proof (cases "rs = []")
  case True
  then show ?thesis by (simp add: calculate_context_score_def spec_composite_score_def)
next
  case False
  have loop: "dimension_scores_loop [] rs = Inr (map (\<lambda>(n, c). dimension_score n c) rs)"
    by (simp add: dimension_scores_loop_eq [OF assms])
  show ?thesis
    unfolding calculate_context_score_def spec_composite_score_def Let_def loop successful_count
    using False by simp
qed

lemma spec_composite_score_range: "0 \<le> spec_composite_score rs \<and> spec_composite_score rs \<le> 1"
  by (simp add: spec_composite_score_def)


subsection \<open>The fan-out\<close>


lemma no_base_raise:
  assumes "base_raise_count an = 0"
  shows "\<not> raised_base (who_analyzer an)" "\<not> raised_base (what_analyzer an)"
    "\<not> raised_base (where_analyzer an)" "\<not> raised_base (when_analyzer an)"
    "\<not> raised_base (why_analyzer an)"
  using assms by (simp_all add: base_raise_count_def split: if_splits)

lemma stored_result:
  "\<not> raised_base r \<Longrightarrow>
   (case map_outcome f r of Raised e \<Rightarrow> None | RaisedBase e \<Rightarrow> Some (ExceptionObject e)
    | Returned c \<Rightarrow> Some c) = map_option f (returned r)"
  by (cases r) (simp_all add: returned_def raised_base_def)

lemma build_dimensions_parallel_unfold:
  assumes "base_raise_count an = 0"
  shows "build_dimensions_parallel an dims =
    (if ''WHO'' \<in> set dims then [(''WHO'', map_option WhoC (returned (who_analyzer an)))] else []) @
    (if ''WHAT'' \<in> set dims then [(''WHAT'', map_option WhatC (returned (what_analyzer an)))] else []) @
    (if ''WHERE'' \<in> set dims then [(''WHERE'', map_option WhereC (returned (where_analyzer an)))] else []) @
    (if ''WHEN'' \<in> set dims then [(''WHEN'', map_option WhenC (returned (when_analyzer an)))] else []) @
    (if ''WHY'' \<in> set dims then [(''WHY'', map_option WhyC (returned (why_analyzer an)))] else [])"
  by (simp add: build_dimensions_parallel_def tasks_def stored_result no_base_raise [OF assms])

lemma analyzer_calls_eq:
  "analyzer_calls an dims = filter (\<lambda>n. n \<in> set dims) valid_dimensions"
  by (simp add: analyzer_calls_def tasks_def valid_dimensions_def)

lemma typed_entries:
  "\<not> isl (score_dimension ''WHO'' (map_option WhoC x1))"
  "\<not> isl (score_dimension ''WHAT'' (map_option WhatC x2))"
  "\<not> isl (score_dimension ''WHERE'' (map_option WhereC x3))"
  "\<not> isl (score_dimension ''WHEN'' (map_option WhenC x4))"
  "\<not> isl (score_dimension ''WHY'' (map_option WhyC x5))"
proof -
  show "\<not> isl (score_dimension ''WHO'' (map_option WhoC x1))"
    by (cases x1) (simp_all add: score_dimension_def)
  show "\<not> isl (score_dimension ''WHAT'' (map_option WhatC x2))"
    by (cases x2) (simp_all add: score_dimension_def)
  show "\<not> isl (score_dimension ''WHERE'' (map_option WhereC x3))"
    by (cases x3) (simp_all add: score_dimension_def)
  show "\<not> isl (score_dimension ''WHEN'' (map_option WhenC x4))"
    by (cases x4) (simp_all add: score_dimension_def)
  show "\<not> isl (score_dimension ''WHY'' (map_option WhyC x5))"
    by (cases x5) (simp_all add: score_dimension_def)
qed

lemma well_typed_build:
  "base_raise_count an = 0 \<Longrightarrow> well_typed (build_dimensions_parallel an dims)"
  by (simp add: well_typed_def build_dimensions_parallel_unfold typed_entries)

lemma dict_get_build:
  assumes "base_raise_count an = 0"
  shows "dict_get (build_dimensions_parallel an dims) ''WHO''
     = (if ''WHO'' \<in> set dims then map_option WhoC (returned (who_analyzer an)) else None)"
  "dict_get (build_dimensions_parallel an dims) ''WHAT''
     = (if ''WHAT'' \<in> set dims then map_option WhatC (returned (what_analyzer an)) else None)"
  "dict_get (build_dimensions_parallel an dims) ''WHERE''
     = (if ''WHERE'' \<in> set dims then map_option WhereC (returned (where_analyzer an)) else None)"
  "dict_get (build_dimensions_parallel an dims) ''WHEN''
     = (if ''WHEN'' \<in> set dims then map_option WhenC (returned (when_analyzer an)) else None)"
  "dict_get (build_dimensions_parallel an dims) ''WHY''
     = (if ''WHY'' \<in> set dims then map_option WhyC (returned (why_analyzer an)) else None)"
  by (simp_all add: dict_get_def build_dimensions_parallel_unfold [OF assms] map_add_def)

lemma make_context_response_typed:
  assumes "0 \<le> score" "score \<le> 1"
  shows "make_context_response cid name (map_option WhoC x1) (map_option WhatC x2)
           (map_option WhereC x3) (map_option WhenC x4) (map_option WhyC x5)
           score done_flag cached_flag ms ts
     = Inr \<lparr>resp_case_id = cid, resp_case_name = name, resp_who = x1, resp_what = x2,
            resp_where = x3, resp_when = x4, resp_why = x5, context_score = score,
            is_complete = done_flag, cached = cached_flag, execution_time_ms = ms,
            timestamp = ts\<rparr>"
  using assms
  by (cases x1; cases x2; cases x3; cases x4; cases x5)
     (simp_all add: make_context_response_def)

lemma make_context_response_Inr:
  assumes "make_context_response cid name who what wher whn why score done_flag cached_flag ms ts
             = Inr r"
  shows "context_score r = score" "is_complete r = done_flag" "cached r = cached_flag"
  using assms by (auto simp: make_context_response_def Let_def split: if_splits)

lemma dict_get_build_typed:
  assumes "base_raise_count an = 0"
  shows "dict_get (build_dimensions_parallel an dims) ''WHO''
     = map_option WhoC (if ''WHO'' \<in> set dims then returned (who_analyzer an) else None)"
  "dict_get (build_dimensions_parallel an dims) ''WHAT''
     = map_option WhatC (if ''WHAT'' \<in> set dims then returned (what_analyzer an) else None)"
  "dict_get (build_dimensions_parallel an dims) ''WHERE''
     = map_option WhereC (if ''WHERE'' \<in> set dims then returned (where_analyzer an) else None)"
  "dict_get (build_dimensions_parallel an dims) ''WHEN''
     = map_option WhenC (if ''WHEN'' \<in> set dims then returned (when_analyzer an) else None)"
  "dict_get (build_dimensions_parallel an dims) ''WHY''
     = map_option WhyC (if ''WHY'' \<in> set dims then returned (why_analyzer an) else None)"
  by (simp_all add: dict_get_build [OF assms])

lemma fresh_check:
  assumes miss: "use_cache \<longrightarrow> fst (check_cache md5 t c scope now m) = None"
  shows "\<exists>m1. (if use_cache then check_cache md5 t c scope now m else (None, m)) = (None, m1)"
proof (cases use_cache)
  case True
  with miss show ?thesis by (cases "check_cache md5 t c scope now m") simp
next
  case False
  then show ?thesis by simp
qed

lemma build_context_fresh:
  assumes det: "determine_dimensions scope incl = Inr dims"
    and miss: "use_cache \<longrightarrow> fst (check_cache md5 t c scope now m) = None"
    and nobase: "base_raise_count an = 0"
  shows "\<exists>m'. build_context md5 an t c scope incl use_cache now later m =
    (Inr \<lparr>resp_case_id = c,
          resp_case_name = get_case_name (build_dimensions_parallel an dims) c,
          resp_who = (if ''WHO'' \<in> set dims then returned (who_analyzer an) else None),
          resp_what = (if ''WHAT'' \<in> set dims then returned (what_analyzer an) else None),
          resp_where = (if ''WHERE'' \<in> set dims then returned (where_analyzer an) else None),
          resp_when = (if ''WHEN'' \<in> set dims then returned (when_analyzer an) else None),
          resp_why = (if ''WHY'' \<in> set dims then returned (why_analyzer an) else None),
          context_score = spec_composite_score (build_dimensions_parallel an dims),
          is_complete = (COMPLETENESS_THRESHOLD
                          \<le> spec_composite_score (build_dimensions_parallel an dims)),
          cached = False, execution_time_ms = (later - now) div 1000, timestamp = later\<rparr>,
     m', analyzer_calls an dims)"
proof -
  let ?rs = "build_dimensions_parallel an dims"
  let ?s = "spec_composite_score ?rs"
  have score: "calculate_context_score ?rs = Inr ?s"
    by (rule calculate_context_score_eq [OF well_typed_build [OF nobase]])
  have range: "0 \<le> ?s" "?s \<le> 1" using spec_composite_score_range [of ?rs] by simp_all
  note mk = make_context_response_typed [OF range]
  from fresh_check [OF miss] obtain m1 where chk:
    "(if use_cache then check_cache md5 t c scope now m else (None, m)) = (None, m1)"
    by blast
  show ?thesis
    unfolding build_context_def chk Let_def
    by (simp add: det score dict_get_build_typed [OF nobase] mk)
qed

lemma dimension_scores_loop_Inr:
  "dimension_scores_loop acc rs = Inr xs \<Longrightarrow> well_typed rs"
proof (induction rs arbitrary: acc)
  case Nil
  then show ?case by (simp add: well_typed_def)
next
  case (Cons r rs)
  obtain n c where r: "r = (n, c)" by (cases r)
  show ?case
  proof (cases c)
    case None
    with Cons.prems have "dimension_scores_loop (acc @ [0]) rs = Inr xs" by (simp add: r)
    then have "well_typed rs" by (rule Cons.IH)
    then show ?thesis by (simp add: well_typed_def r None score_dimension_def)
  next
    case (Some ctx)
    show ?thesis
    proof (cases "score_dimension n (Some ctx)")
      case (Inl e)
      with Cons.prems show ?thesis by (simp add: r Some)
    next
      case (Inr s)
      with Cons.prems have "dimension_scores_loop (acc @ [s]) rs = Inr xs" by (simp add: r Some)
      then have "well_typed rs" by (rule Cons.IH)
      then show ?thesis by (simp add: well_typed_def r Some Inr)
    qed
  qed
qed

lemma calculate_context_score_Inr:
  assumes "calculate_context_score rs = Inr s"
  shows "s = spec_composite_score rs"
proof (cases "rs = []")
  case True
  with assms show ?thesis by (simp add: calculate_context_score_def spec_composite_score_def)
next
  case False
  with assms obtain xs where "dimension_scores_loop [] rs = Inr xs"
    by (cases "dimension_scores_loop [] rs")
       (simp_all add: calculate_context_score_def Let_def)
  then have "well_typed rs" by (rule dimension_scores_loop_Inr)
  from calculate_context_score_eq [OF this] assms show ?thesis by simp
qed

lemma build_context_returns:
  assumes det: "determine_dimensions scope incl = Inr dims"
    and miss: "use_cache \<longrightarrow> fst (check_cache md5 t c scope now m) = None"
    and ret: "build_context md5 an t c scope incl use_cache now later m = (Inr r, m', calls)"
  shows "context_score r = spec_composite_score (build_dimensions_parallel an dims)"
    and "is_complete r \<longleftrightarrow> COMPLETENESS_THRESHOLD \<le> context_score r"
    and "calls = analyzer_calls an dims"
proof -
  let ?rs = "build_dimensions_parallel an dims"
  from fresh_check [OF miss] obtain m1 where chk:
    "(if use_cache then check_cache md5 t c scope now m else (None, m)) = (None, m1)"
    by blast
  from ret obtain s where s: "calculate_context_score ?rs = Inr s"
    unfolding build_context_def chk Let_def
    by (cases "calculate_context_score ?rs") (simp_all add: det)
  from ret obtain r0 where mk: "make_context_response c (get_case_name ?rs c)
      (dict_get ?rs ''WHO'') (dict_get ?rs ''WHAT'') (dict_get ?rs ''WHERE'')
      (dict_get ?rs ''WHEN'') (dict_get ?rs ''WHY'')
      s (COMPLETENESS_THRESHOLD \<le> s) False ((later - now) div 1000) later = Inr r0"
    unfolding build_context_def chk Let_def
    by (cases "make_context_response c (get_case_name ?rs c)
      (dict_get ?rs ''WHO'') (dict_get ?rs ''WHAT'') (dict_get ?rs ''WHERE'')
      (dict_get ?rs ''WHEN'') (dict_get ?rs ''WHY'')
      s (COMPLETENESS_THRESHOLD \<le> s) False ((later - now) div 1000) later")
       (simp_all add: det s)
  from ret have r: "r = r0" and calls: "calls = analyzer_calls an dims"
    unfolding build_context_def chk Let_def by (simp_all add: det s mk)
  from make_context_response_Inr [OF mk] r
  have cs: "context_score r = s" and ic: "is_complete r = (COMPLETENESS_THRESHOLD \<le> s)"
    by simp_all
  show "context_score r = spec_composite_score ?rs"
    using cs calculate_context_score_Inr [OF s] by simp
  show "is_complete r \<longleftrightarrow> COMPLETENESS_THRESHOLD \<le> context_score r"
    using cs ic by simp
  show "calls = analyzer_calls an dims" by (rule calls)
qed

text \<open>
  Claim C2. The score \<^verbatim>\<open>_calculate_context_score\<close> returns is the composite score of the
  specification (\<open>spec_composite_score\<close>: mean of the per-dimension scores with an absent
  dimension as \<open>0.0\<close>, times successful over requested dimensions, clamped to \<open>[0,1]\<close>):
  \<open>0.0\<close> for the empty dictionary, and the formula for every dictionary whose contexts
  have the class of their dimension; whatever the dictionary, a score that is returned is
  the formula (the only other outcome is the exception of \<^verbatim>\<open>_score_dimension\<close>). The
  dictionary of a fan-out in which no analyzer raised outside \<^verbatim>\<open>Exception\<close> is scored by
  the formula. A composite that \<^verbatim>\<open>build_context\<close> builds (no cached composite returned)
  carries this score, and its \<^verbatim>\<open>is_complete\<close> flag is true exactly when the score is at
  least \<open>0.85\<close>: such a composite is returned whenever no analyzer raised outside
  \<^verbatim>\<open>Exception\<close>, and every composite returned is of this kind.
\<close>

theorem composite_score_formula:
  "calculate_context_score [] = Inr 0
 \<and> (well_typed rs \<longrightarrow> calculate_context_score rs = Inr (spec_composite_score rs))
 \<and> (calculate_context_score rs = Inr s \<longrightarrow> s = spec_composite_score rs)
 \<and> (base_raise_count an = 0 \<longrightarrow>
      calculate_context_score (build_dimensions_parallel an dims)
        = Inr (spec_composite_score (build_dimensions_parallel an dims)))
 \<and> 0 \<le> spec_composite_score rs \<and> spec_composite_score rs \<le> 1
 \<and> (determine_dimensions scope incl = Inr dims
      \<and> (use_cache \<longrightarrow> fst (check_cache md5 t c scope now m) = None)
      \<and> base_raise_count an = 0 \<longrightarrow>
      (\<exists>r m'. build_context md5 an t c scope incl use_cache now later m
                 = (Inr r, m', analyzer_calls an dims)
         \<and> context_score r = spec_composite_score (build_dimensions_parallel an dims)
         \<and> (is_complete r \<longleftrightarrow> 85 / 100 \<le> context_score r)))
 \<and> (determine_dimensions scope incl = Inr dims
      \<and> (use_cache \<longrightarrow> fst (check_cache md5 t c scope now m) = None)
      \<and> build_context md5 an t c scope incl use_cache now later m = (Inr r', m'', calls) \<longrightarrow>
      context_score r' = spec_composite_score (build_dimensions_parallel an dims)
      \<and> (is_complete r' \<longleftrightarrow> 85 / 100 \<le> context_score r'))"
proof (intro conjI impI)
  show "calculate_context_score [] = Inr 0"
    by (simp add: calculate_context_score_def)
next
  assume "well_typed rs"
  then show "calculate_context_score rs = Inr (spec_composite_score rs)"
    by (rule calculate_context_score_eq)
next
  assume "calculate_context_score rs = Inr s"
  then show "s = spec_composite_score rs"
    by (rule calculate_context_score_Inr)
next
  assume "base_raise_count an = 0"
  then show "calculate_context_score (build_dimensions_parallel an dims)
      = Inr (spec_composite_score (build_dimensions_parallel an dims))"
    by (rule calculate_context_score_eq [OF well_typed_build])
next
  show "0 \<le> spec_composite_score rs" "spec_composite_score rs \<le> 1"
    using spec_composite_score_range [of rs] by simp_all
next
  assume h: "determine_dimensions scope incl = Inr dims
      \<and> (use_cache \<longrightarrow> fst (check_cache md5 t c scope now m) = None)
      \<and> base_raise_count an = 0"
  then have det: "determine_dimensions scope incl = Inr dims"
    and miss: "use_cache \<longrightarrow> fst (check_cache md5 t c scope now m) = None"
    and nobase: "base_raise_count an = 0"
    by simp_all
  from build_context_fresh [OF det miss nobase, of later]
  obtain m' where b: "build_context md5 an t c scope incl use_cache now later m =
    (Inr \<lparr>resp_case_id = c,
          resp_case_name = get_case_name (build_dimensions_parallel an dims) c,
          resp_who = (if ''WHO'' \<in> set dims then returned (who_analyzer an) else None),
          resp_what = (if ''WHAT'' \<in> set dims then returned (what_analyzer an) else None),
          resp_where = (if ''WHERE'' \<in> set dims then returned (where_analyzer an) else None),
          resp_when = (if ''WHEN'' \<in> set dims then returned (when_analyzer an) else None),
          resp_why = (if ''WHY'' \<in> set dims then returned (why_analyzer an) else None),
          context_score = spec_composite_score (build_dimensions_parallel an dims),
          is_complete = (COMPLETENESS_THRESHOLD
                          \<le> spec_composite_score (build_dimensions_parallel an dims)),
          cached = False, execution_time_ms = (later - now) div 1000, timestamp = later\<rparr>,
     m', analyzer_calls an dims)"
    by blast
  show "\<exists>r m'. build_context md5 an t c scope incl use_cache now later m
                 = (Inr r, m', analyzer_calls an dims)
         \<and> context_score r = spec_composite_score (build_dimensions_parallel an dims)
         \<and> (is_complete r \<longleftrightarrow> 85 / 100 \<le> context_score r)"
    unfolding b by (simp add: COMPLETENESS_THRESHOLD_def)
next
  assume h: "determine_dimensions scope incl = Inr dims
      \<and> (use_cache \<longrightarrow> fst (check_cache md5 t c scope now m) = None)
      \<and> build_context md5 an t c scope incl use_cache now later m = (Inr r', m'', calls)"
  then have det: "determine_dimensions scope incl = Inr dims"
    and miss: "use_cache \<longrightarrow> fst (check_cache md5 t c scope now m) = None"
    and ret: "build_context md5 an t c scope incl use_cache now later m = (Inr r', m'', calls)"
    by simp_all
  from build_context_returns(1) [OF det miss ret]
  show "context_score r' = spec_composite_score (build_dimensions_parallel an dims)" .
next
  assume h: "determine_dimensions scope incl = Inr dims
      \<and> (use_cache \<longrightarrow> fst (check_cache md5 t c scope now m) = None)
      \<and> build_context md5 an t c scope incl use_cache now later m = (Inr r', m'', calls)"
  then have det: "determine_dimensions scope incl = Inr dims"
    and miss: "use_cache \<longrightarrow> fst (check_cache md5 t c scope now m) = None"
    and ret: "build_context md5 an t c scope incl use_cache now later m = (Inr r', m'', calls)"
    by simp_all
  from build_context_returns(2) [OF det miss ret]
  show "is_complete r' \<longleftrightarrow> 85 / 100 \<le> context_score r'"
    by (simp add: COMPLETENESS_THRESHOLD_def)
qed

theorem composite_score_formula_witness:
  "\<forall>md5. well_typed
     [(''WHO'', Some (WhoC \<lparr>model_case_id = ''test'', model_case_name = ''Test'',
                           parties = [''p1'', ''p2''], judges = [''j1''], attorneys = [''a1''],
                           witnesses = []\<rparr>)),
      (''WHAT'', None),
      (''WHERE'', Some (WhereC \<lparr>model_case_id = ''test'', model_case_name = ''Test'',
                           primary_jurisdiction = ''Federal'', court = ''Test Court'',
                           venue = ''Test Venue''\<rparr>))]
   \<and> calculate_context_score
     [(''WHO'', Some (WhoC \<lparr>model_case_id = ''test'', model_case_name = ''Test'',
                           parties = [''p1'', ''p2''], judges = [''j1''], attorneys = [''a1''],
                           witnesses = []\<rparr>)),
      (''WHAT'', None),
      (''WHERE'', Some (WhereC \<lparr>model_case_id = ''test'', model_case_name = ''Test'',
                           primary_jurisdiction = ''Federal'', court = ''Test Court'',
                           venue = ''Test Venue''\<rparr>))] = Inr (14 / 45)
   \<and> determine_dimensions ''minimal'' None = Inr [''WHO'', ''WHERE'']
   \<and> base_raise_count
        \<lparr>who_analyzer = Returned \<lparr>model_case_id = ''c'', model_case_name = ''Test'',
                           parties = [''p1'', ''p2''], judges = [''j1''], attorneys = [''a1''],
                           witnesses = []\<rparr>,
         what_analyzer = Raised ''down'',
         where_analyzer = Returned \<lparr>model_case_id = ''c'', model_case_name = ''Test'',
                           primary_jurisdiction = ''Federal'', court = ''Test Court'',
                           venue = ''Test Venue''\<rparr>,
         when_analyzer = Raised ''down'', why_analyzer = Raised ''down''\<rparr> = 0
   \<and> (\<exists>r m'. build_context md5
        \<lparr>who_analyzer = Returned \<lparr>model_case_id = ''c'', model_case_name = ''Test'',
                           parties = [''p1'', ''p2''], judges = [''j1''], attorneys = [''a1''],
                           witnesses = []\<rparr>,
         what_analyzer = Raised ''down'',
         where_analyzer = Returned \<lparr>model_case_id = ''c'', model_case_name = ''Test'',
                           primary_jurisdiction = ''Federal'', court = ''Test Court'',
                           venue = ''Test Venue''\<rparr>,
         when_analyzer = Raised ''down'', why_analyzer = Raised ''down''\<rparr>
        ''t'' ''c'' ''minimal'' None False 0 5000
        (create_cache_manager False False True False False) = (Inr r, m', [''WHO'', ''WHERE''])
      \<and> context_score r = 7 / 10 \<and> \<not> is_complete r)"
proof
  fix md5 :: "string \<Rightarrow> string"
  let ?who = "\<lparr>model_case_id = ''test'', model_case_name = ''Test'',
                           parties = [''p1'', ''p2''], judges = [''j1''], attorneys = [''a1''],
                           witnesses = []\<rparr>"
  let ?where = "\<lparr>model_case_id = ''test'', model_case_name = ''Test'',
                           primary_jurisdiction = ''Federal'', court = ''Test Court'',
                           venue = ''Test Venue''\<rparr>"
  let ?rs = "[(''WHO'', Some (WhoC ?who)), (''WHAT'', None), (''WHERE'', Some (WhereC ?where))]"
  let ?an = "\<lparr>who_analyzer = Returned \<lparr>model_case_id = ''c'', model_case_name = ''Test'',
                           parties = [''p1'', ''p2''], judges = [''j1''], attorneys = [''a1''],
                           witnesses = []\<rparr>,
         what_analyzer = Raised ''down'',
         where_analyzer = Returned \<lparr>model_case_id = ''c'', model_case_name = ''Test'',
                           primary_jurisdiction = ''Federal'', court = ''Test Court'',
                           venue = ''Test Venue''\<rparr>,
         when_analyzer = Raised ''down'', why_analyzer = Raised ''down''\<rparr>"
  let ?m = "create_cache_manager False False True False False :: cached_data cache_manager"
  have wt: "well_typed ?rs"
    by (simp add: well_typed_def score_dimension_def bool_str_def)
  have det: "determine_dimensions ''minimal'' None = Inr [''WHO'', ''WHERE'']"
    by (simp add: determine_dimensions_def SCOPES_def)
  have nobase: "base_raise_count ?an = 0"
    by (simp add: base_raise_count_def raised_base_def)
  have calls: "analyzer_calls ?an [''WHO'', ''WHERE''] = [''WHO'', ''WHERE'']"
    by (simp add: analyzer_calls_eq valid_dimensions_def)
  note inst = composite_score_formula [where rs = ?rs and an = ?an and dims = "[''WHO'', ''WHERE'']"
      and scope = "''minimal''" and incl = None and use_cache = False and ?md5.0 = md5
      and t = "''t''" and c = "''c''" and now = 0 and later = 5000 and m = ?m]
  from inst wt have a: "calculate_context_score ?rs = Inr (spec_composite_score ?rs)" by blast
  have v: "spec_composite_score ?rs = 14 / 45"
    by (simp add: spec_composite_score_def dimension_score_def score_dimension_def bool_str_def)
  from inst det nobase obtain r m' where b:
    "build_context md5 ?an ''t'' ''c'' ''minimal'' None False 0 5000 ?m
       = (Inr r, m', analyzer_calls ?an [''WHO'', ''WHERE''])"
    "context_score r = spec_composite_score (build_dimensions_parallel ?an [''WHO'', ''WHERE''])"
    "is_complete r \<longleftrightarrow> 85 / 100 \<le> context_score r"
    by blast
  have w: "spec_composite_score (build_dimensions_parallel ?an [''WHO'', ''WHERE'']) = 7 / 10"
    by (simp add: build_dimensions_parallel_unfold [OF nobase] returned_def
        spec_composite_score_def dimension_score_def score_dimension_def bool_str_def)
  from b w have "context_score r = 7 / 10 \<and> \<not> is_complete r" by simp
  with b(1) calls
  have c: "\<exists>r m'. build_context md5 ?an ''t'' ''c'' ''minimal'' None False 0 5000 ?m
      = (Inr r, m', [''WHO'', ''WHERE'']) \<and> context_score r = 7 / 10 \<and> \<not> is_complete r"
    by (simp only:) blast
  from wt a v det nobase c
  show "well_typed ?rs \<and> calculate_context_score ?rs = Inr (14 / 45)
    \<and> determine_dimensions ''minimal'' None = Inr [''WHO'', ''WHERE'']
    \<and> base_raise_count ?an = 0
    \<and> (\<exists>r m'. build_context md5 ?an ''t'' ''c'' ''minimal'' None False 0 5000 ?m
           = (Inr r, m', [''WHO'', ''WHERE''])
         \<and> context_score r = 7 / 10 \<and> \<not> is_complete r)"
    by simp
qed

subsection \<open>Partial failure\<close>











subsection \<open>Invalid requests\<close>

lemma determine_dimensions_invalid_scope:
  assumes "incl = None \<or> incl = Some []" "map_of SCOPES scope = None"
  shows "determine_dimensions scope incl
    = Inl (ValueError [Text (''Invalid scope: '' @ scope
             @ ''. Valid scopes: ['minimal', 'standard', 'comprehensive']'')])"
proof -
  have l: "list_repr (map fst SCOPES) = ''['minimal', 'standard', 'comprehensive']''"
    by (simp add: list_repr_def str_repr_def SCOPES_def)
  from assms show ?thesis
    by (auto simp: determine_dimensions_def l)
qed

lemma determine_dimensions_invalid_names:
  assumes "incl = Some ds" "\<not> set ds \<subseteq> set valid_dimensions"
  shows "determine_dimensions scope incl
    = Inl (ValueError [Text ''Invalid dimension names: '',
                       SetRepr (set ds - set valid_dimensions),
                       Text ''. Valid dimensions: '', SetRepr (set valid_dimensions)])"
proof -
  from assms(2) have "set ds - set valid_dimensions \<noteq> {}" by auto
  moreover from assms(2) have "ds \<noteq> []" by auto
  ultimately show ?thesis using assms(1) by (simp add: determine_dimensions_def Let_def)
qed

lemma check_cache_state:
  "snd (check_cache md5 t c scope now m) = snd (cache_get md5 t c scope None now m)"
  by (simp add: check_cache_def split: prod.splits option.splits cached_data.splits)

lemma build_context_invalid:
  assumes "determine_dimensions scope incl = Inl e"
  shows "build_context md5 an t c scope incl False now later m = (Inl e, m, [])"
    and "fst (check_cache md5 t c scope now m) = None \<Longrightarrow>
         build_context md5 an t c scope incl True now later m
           = (Inl e, snd (cache_get md5 t c scope None now m), [])"
proof -
  show "build_context md5 an t c scope incl False now later m = (Inl e, m, [])"
    by (simp add: build_context_def assms)
  assume miss: "fst (check_cache md5 t c scope now m) = None"
  obtain hit m1 where chk: "check_cache md5 t c scope now m = (hit, m1)"
    by (cases "check_cache md5 t c scope now m")
  with miss have hit: "hit = None" by simp
  from chk have m1: "m1 = snd (cache_get md5 t c scope None now m)"
    using check_cache_state [of md5 t c scope now m] by simp
  show "build_context md5 an t c scope incl True now later m
           = (Inl e, snd (cache_get md5 t c scope None now m), [])"
    by (simp add: build_context_def chk hit assms m1)
qed

lemma build_context_invalid_no_analyzer:
  assumes "determine_dimensions scope incl = Inl e"
  shows "build_context md5 an' t c scope incl use_cache now later m
         = build_context md5 an t c scope incl use_cache now later m"
    and "snd (snd (build_context md5 an t c scope incl use_cache now later m)) = []"
  by (simp_all add: build_context_def assms Let_def split: prod.splits option.splits)

lemma lru_get_keys_subset: "set (lru_keys (snd (lru_get k now c))) \<subseteq> set (lru_keys c)"
proof (cases "map_of (cache c) k")
  case None
  then show ?thesis by (simp add: lru_get_def)
next
  case (Some e)
  then have kin: "k \<in> set (od_keys (cache c))" by (rule map_of_Some_keys)
  show ?thesis
  proof (cases "is_expired e now")
    case True
    then show ?thesis using Some by (auto simp: lru_get_def lru_keys_def od_keys_delete)
  next
    case False
    then show ?thesis using Some kin
      by (auto simp: lru_get_def Let_def lru_keys_def od_keys_assign od_keys_move_to_end_raw)
  qed
qed

lemma cache_get_no_write:
  "total_sets (stats (snd (cache_get md5 t c s d now m))) = total_sets (stats m)"
  "total_deletes (stats (snd (cache_get md5 t c s d now m))) = total_deletes (stats m)"
  "memory_tier m = None \<Longrightarrow> memory_tier (snd (cache_get md5 t c s d now m)) = None"
  "memory_tier m = Some mc \<Longrightarrow>
     \<exists>mc'. memory_tier (snd (cache_get md5 t c s d now m)) = Some mc'
          \<and> set (lru_keys mc') \<subseteq> set (lru_keys mc)"
proof -
  show "total_sets (stats (snd (cache_get md5 t c s d now m))) = total_sets (stats m)"
    by (simp add: cache_get_def Let_def get_from_redis_def get_from_database_def
        split: option.splits prod.splits)
  show "total_deletes (stats (snd (cache_get md5 t c s d now m))) = total_deletes (stats m)"
    by (simp add: cache_get_def Let_def get_from_redis_def get_from_database_def
        split: option.splits prod.splits)
  show "memory_tier m = None \<Longrightarrow> memory_tier (snd (cache_get md5 t c s d now m)) = None"
    by (simp add: cache_get_def Let_def get_from_redis_def get_from_database_def)
  assume tier: "memory_tier m = Some mc"
  then have en: "enable_memory_cache m" using memory_tier_SomeD by blast
  let ?k = "generate_cache_key md5 t c s d"
  have "memory_tier (snd (cache_get md5 t c s d now m)) = Some (snd (lru_get ?k now mc))"
    using tier en
    by (simp add: cache_get_def Let_def get_from_redis_def get_from_database_def
        split: option.splits prod.splits)
  then show "\<exists>mc'. memory_tier (snd (cache_get md5 t c s d now m)) = Some mc'
          \<and> set (lru_keys mc') \<subseteq> set (lru_keys mc)"
    using lru_get_keys_subset [of ?k now mc] by simp
qed

text \<open>
  Claim C7, as stated, fails: \<^verbatim>\<open>build_context\<close> consults the cache before it looks at
  the scope or at the dimension list, and \<^verbatim>\<open>CacheManager.get\<close> counts the miss. With
  the default \<^verbatim>\<open>use_cache=True\<close>, a request with the unknown scope \<open>bogus\<close> raises the
  error, with no analyzer called, and leaves \<^verbatim>\<open>memory_misses\<close> at 1 instead of 0.
\<close>

theorem invalid_scope_counts_a_miss:
  "\<forall>md5 an.
     build_context md5 an ''tenant-1'' ''case-1'' ''bogus'' None True 0 1
       (create_cache_manager False False True False False)
     = (Inl (ValueError
          [Text ''Invalid scope: bogus. Valid scopes: ['minimal', 'standard', 'comprehensive']'']),
        (create_cache_manager False False True False False)
          \<lparr>stats := zero_stats\<lparr>memory_misses := 1\<rparr>\<rparr>,
        [])
   \<and> memory_misses (stats (fst (snd (build_context md5 an ''tenant-1'' ''case-1'' ''bogus'' None
         True 0 1 (create_cache_manager False False True False False))))) = 1
   \<and> memory_misses (stats (create_cache_manager False False True False False
         :: cached_data cache_manager)) = 0"
  by (simp add: build_context_def check_cache_def cache_get_def Let_def memory_tier_def
      create_cache_manager_def new_lru_cache_def lru_get_def get_from_redis_def
      get_from_database_def determine_dimensions_def SCOPES_def zero_stats_def
      list_repr_def str_repr_def)

text \<open>
  Claim C7, amended. A request with an unknown scope and no explicit dimension list, or
  with an explicit list that holds a name outside the five dimensions, raises a
  \<^verbatim>\<open>ValueError\<close> whose message names the offending scope, or the set of offending
  dimension names, and the valid ones. No analyzer is called by such a request, whatever
  the cache holds: the list of \<^verbatim>\<open>analyze\<close> calls is empty, and the outcome is the same for
  any other analyzers. The error is raised without a cache write, unless the cache check
  that comes first returns a composite. With \<^verbatim>\<open>use_cache\<close> false the cache manager is
  unchanged. With \<^verbatim>\<open>use_cache\<close> true and no composite found, the state is the one the read
  \<^verbatim>\<open>CacheManager.get\<close> leaves: its hit and miss counters may have moved and an expired
  entry may be gone, but \<^verbatim>\<open>total_sets\<close> and \<^verbatim>\<open>total_deletes\<close> are the same and the memory
  tier has gained no key.
\<close>

theorem invalid_request_raises_before_fan_out:
  assumes "((incl = None \<or> incl = Some []) \<and> map_of SCOPES scope = None)
           \<or> (\<exists>ds. incl = Some ds \<and> \<not> set ds \<subseteq> set valid_dimensions)"
  shows "\<exists>msg. determine_dimensions scope incl = Inl (ValueError msg)
    \<and> msg = (case incl of
               Some (d # ds) \<Rightarrow>
                 [Text ''Invalid dimension names: '',
                  SetRepr (set (d # ds) - {''WHO'', ''WHAT'', ''WHERE'', ''WHEN'', ''WHY''}),
                  Text ''. Valid dimensions: '',
                  SetRepr {''WHO'', ''WHAT'', ''WHERE'', ''WHEN'', ''WHY''}]
             | _ \<Rightarrow>
                 [Text (''Invalid scope: '' @ scope
                        @ ''. Valid scopes: ['minimal', 'standard', 'comprehensive']'')])
    \<and> build_context md5 an t c scope incl False now later m = (Inl (ValueError msg), m, [])
    \<and> (fst (check_cache md5 t c scope now m) = None \<longrightarrow>
         build_context md5 an t c scope incl True now later m
           = (Inl (ValueError msg), snd (cache_get md5 t c scope None now m), []))
    \<and> snd (snd (build_context md5 an t c scope incl use_cache now later m)) = []
    \<and> build_context md5 an' t c scope incl use_cache now later m
         = build_context md5 an t c scope incl use_cache now later m
    \<and> total_sets (stats (snd (cache_get md5 t c scope None now m))) = total_sets (stats m)
    \<and> total_deletes (stats (snd (cache_get md5 t c scope None now m))) = total_deletes (stats m)
    \<and> (memory_tier m = None \<longrightarrow> memory_tier (snd (cache_get md5 t c scope None now m)) = None)
    \<and> (memory_tier m = Some mc \<longrightarrow>
         (\<exists>mc'. memory_tier (snd (cache_get md5 t c scope None now m)) = Some mc'
               \<and> set (lru_keys mc') \<subseteq> set (lru_keys mc)))"
proof -
  let ?msg = "case incl of
               Some (d # ds) \<Rightarrow>
                 [Text ''Invalid dimension names: '',
                  SetRepr (set (d # ds) - {''WHO'', ''WHAT'', ''WHERE'', ''WHEN'', ''WHY''}),
                  Text ''. Valid dimensions: '',
                  SetRepr {''WHO'', ''WHAT'', ''WHERE'', ''WHEN'', ''WHY''}]
             | _ \<Rightarrow>
                 [Text (''Invalid scope: '' @ scope
                        @ ''. Valid scopes: ['minimal', 'standard', 'comprehensive']'')]"
  have valid: "set valid_dimensions = {''WHO'', ''WHAT'', ''WHERE'', ''WHEN'', ''WHY''}"
    by (simp add: valid_dimensions_def)
  have e: "determine_dimensions scope incl = Inl (ValueError ?msg)"
    using assms
  proof (elim disjE conjE exE)
    assume "incl = None" "map_of SCOPES scope = None"
    then show ?thesis
      using determine_dimensions_invalid_scope [of incl scope] by simp
  next
    assume "incl = Some []" "map_of SCOPES scope = None"
    then show ?thesis
      using determine_dimensions_invalid_scope [of incl scope] by simp
  next
    fix xs assume xs: "incl = Some xs" "\<not> set xs \<subseteq> set valid_dimensions"
    then obtain d ds where "xs = d # ds" by (cases xs) auto
    with xs show ?thesis
      using determine_dimensions_invalid_names [OF xs, of scope] by (simp add: valid)
  qed
  show ?thesis
  proof (intro exI [of _ ?msg] conjI impI)
    show "determine_dimensions scope incl = Inl (ValueError ?msg)" by (rule e)
    show "?msg = ?msg" by (rule refl)
    show "build_context md5 an t c scope incl False now later m = (Inl (ValueError ?msg), m, [])"
      by (rule build_context_invalid(1) [OF e])
    show "build_context md5 an t c scope incl True now later m
           = (Inl (ValueError ?msg), snd (cache_get md5 t c scope None now m), [])"
      if "fst (check_cache md5 t c scope now m) = None"
      using that by (rule build_context_invalid(2) [OF e])
    show "snd (snd (build_context md5 an t c scope incl use_cache now later m)) = []"
      by (rule build_context_invalid_no_analyzer(2) [OF e])
    show "build_context md5 an' t c scope incl use_cache now later m
         = build_context md5 an t c scope incl use_cache now later m"
      by (rule build_context_invalid_no_analyzer(1) [OF e])
    show "total_sets (stats (snd (cache_get md5 t c scope None now m))) = total_sets (stats m)"
      by (rule cache_get_no_write(1))
    show "total_deletes (stats (snd (cache_get md5 t c scope None now m)))
            = total_deletes (stats m)"
      by (rule cache_get_no_write(2))
    show "memory_tier (snd (cache_get md5 t c scope None now m)) = None"
      if "memory_tier m = None"
      using that by (rule cache_get_no_write(3))
    show "\<exists>mc'. memory_tier (snd (cache_get md5 t c scope None now m)) = Some mc'
               \<and> set (lru_keys mc') \<subseteq> set (lru_keys mc)"
      if "memory_tier m = Some mc"
      using that by (rule cache_get_no_write(4))
  qed
qed

theorem invalid_request_raises_before_fan_out_witness:
  "\<forall>md5 an. \<not> set [''WHO'', ''INVALID''] \<subseteq> set valid_dimensions
   \<and> build_context md5 an ''tenant-1'' ''case-1'' ''minimal'' (Some [''WHO'', ''INVALID''])
        False 0 1 (create_cache_manager False False True False False)
      = (Inl (ValueError [Text ''Invalid dimension names: '', SetRepr {''INVALID''},
                          Text ''. Valid dimensions: '',
                          SetRepr {''WHO'', ''WHAT'', ''WHERE'', ''WHEN'', ''WHY''}]),
         create_cache_manager False False True False False, [])"
proof (intro allI)
  fix md5 :: "string \<Rightarrow> string" and an :: analyzers
  let ?m = "create_cache_manager False False True False False :: cached_data cache_manager"
  have bad: "\<not> set [''WHO'', ''INVALID''] \<subseteq> set valid_dimensions"
    by (simp add: valid_dimensions_def)
  then have h: "((Some [''WHO'', ''INVALID''] = None \<or> Some [''WHO'', ''INVALID''] = Some [])
                  \<and> map_of SCOPES ''minimal'' = None)
           \<or> (\<exists>ds. Some [''WHO'', ''INVALID''] = Some ds \<and> \<not> set ds \<subseteq> set valid_dimensions)"
    by blast
  have s: "set [''WHO'', ''INVALID''] - {''WHO'', ''WHAT'', ''WHERE'', ''WHEN'', ''WHY''}
             = {''INVALID''}"
    by auto
  from invalid_request_raises_before_fan_out [OF h, where ?md5.0 = md5 and an = an
      and t = "''tenant-1''" and c = "''case-1''" and now = 0 and later = 1 and m = ?m and an' = an and use_cache = False
      and mc = "the (memory_tier ?m)"]
  have "build_context md5 an ''tenant-1'' ''case-1'' ''minimal'' (Some [''WHO'', ''INVALID''])
               False 0 1 ?m
      = (Inl (ValueError [Text ''Invalid dimension names: '', SetRepr {''INVALID''},
                          Text ''. Valid dimensions: '',
                          SetRepr {''WHO'', ''WHAT'', ''WHERE'', ''WHEN'', ''WHY''}]), ?m, [])"
    apply (elim exE conjE)
    subgoal for msg
      using s by simp
    done
  with bad show "\<not> set [''WHO'', ''INVALID''] \<subseteq> set valid_dimensions
   \<and> build_context md5 an ''tenant-1'' ''case-1'' ''minimal'' (Some [''WHO'', ''INVALID''])
        False 0 1 ?m
      = (Inl (ValueError [Text ''Invalid dimension names: '', SetRepr {''INVALID''},
                          Text ''. Valid dimensions: '',
                          SetRepr {''WHO'', ''WHAT'', ''WHERE'', ''WHEN'', ''WHY''}]), ?m, [])"
    by (intro conjI)
qed

end
